theory Spec2Isabelle
  imports Complex_Main "HOL-Library.Multiset"
begin

text \<open>
  A model of the core of the stock tracker: the scoring functions and the opportunity
  scan of the stock controller, the rate-limit interceptor of the data service, the
  WebSocket manager of the front end and its stock update hook. Each definition follows
  the source function of the same name; the properties proved further down are stated
  over these definitions.
\<close>

section \<open>JavaScript numbers\<close>

text \<open>
  The scoring code computes with JavaScript numbers, which are binary doubles. A number
  is modelled by the real it denotes, or by one of the three non-finite values of the
  language. Every division by zero of the source is a branch of the model: \<open>0 / 0\<close> is
  \<open>NaN\<close>, a non-zero number divided by zero is an infinity, and \<open>NaN\<close> propagates
  through arithmetic and makes every comparison false.

  An arithmetic operation on two doubles returns the double next to the exact result,
  or an infinity when the exact result is out of range. This rounding is the parameter
  \<open>rnd\<close> of every operation below: \<open>rnd x\<close> is the number the machine returns for the
  exact result \<open>x\<close>. Nothing is assumed about it in the definitions; the properties of
  the rounding of doubles that a theorem relies on are hypotheses of that theorem
  (\<open>double_rounding\<close> below). With \<open>Fin\<close> for \<open>rnd\<close> the operations are those of exact
  arithmetic. Negation, absolute value, maximum and the comparisons are exact on
  doubles and take no rounding. The sign of zero is not modelled.

  A literal of the source that is a double stands for itself (\<open>0\<close>, \<open>1\<close>, \<open>5\<close>, \<open>8\<close>,
  \<open>100\<close>, \<open>1000\<close>, \<open>0.5\<close>); a decimal literal that is not, such as \<open>0.15\<close>, stands for
  the double next to it, \<open>rnd 0.15\<close>. Numbers that arrive in a request are doubles
  already and are given by their real value.
\<close>

datatype jsnum = Fin real | PInf | NInf | NaN

fun jneg :: "jsnum \<Rightarrow> jsnum" where
  "jneg (Fin a) = Fin (- a)"
| "jneg PInf = NInf"
| "jneg NInf = PInf"
| "jneg NaN = NaN"

fun jadd :: "(real \<Rightarrow> jsnum) \<Rightarrow> jsnum \<Rightarrow> jsnum \<Rightarrow> jsnum" where
  "jadd rnd (Fin a) (Fin b) = rnd (a + b)"
| "jadd rnd NaN _ = NaN"
| "jadd rnd _ NaN = NaN"
| "jadd rnd PInf NInf = NaN"
| "jadd rnd NInf PInf = NaN"
| "jadd rnd PInf _ = PInf"
| "jadd rnd _ PInf = PInf"
| "jadd rnd NInf _ = NInf"
| "jadd rnd _ NInf = NInf"

definition jsub :: "(real \<Rightarrow> jsnum) \<Rightarrow> jsnum \<Rightarrow> jsnum \<Rightarrow> jsnum" where
  "jsub rnd a b = jadd rnd a (jneg b)"

fun jmul :: "(real \<Rightarrow> jsnum) \<Rightarrow> jsnum \<Rightarrow> jsnum \<Rightarrow> jsnum" where
  "jmul rnd (Fin a) (Fin b) = rnd (a * b)"
| "jmul rnd NaN _ = NaN"
| "jmul rnd _ NaN = NaN"
| "jmul rnd (Fin a) PInf = (if a = 0 then NaN else if 0 < a then PInf else NInf)"
| "jmul rnd (Fin a) NInf = (if a = 0 then NaN else if 0 < a then NInf else PInf)"
| "jmul rnd PInf (Fin b) = (if b = 0 then NaN else if 0 < b then PInf else NInf)"
| "jmul rnd NInf (Fin b) = (if b = 0 then NaN else if 0 < b then NInf else PInf)"
| "jmul rnd PInf PInf = PInf"
| "jmul rnd NInf NInf = PInf"
| "jmul rnd PInf NInf = NInf"
| "jmul rnd NInf PInf = NInf"

fun jdiv :: "(real \<Rightarrow> jsnum) \<Rightarrow> jsnum \<Rightarrow> jsnum \<Rightarrow> jsnum" where
  "jdiv rnd (Fin a) (Fin b) =
     (if b \<noteq> 0 then rnd (a / b)
      else if a = 0 then NaN else if 0 < a then PInf else NInf)"
| "jdiv rnd NaN _ = NaN"
| "jdiv rnd _ NaN = NaN"
| "jdiv rnd (Fin a) _ = Fin 0"
| "jdiv rnd PInf (Fin b) = (if 0 \<le> b then PInf else NInf)"
| "jdiv rnd NInf (Fin b) = (if 0 \<le> b then NInf else PInf)"
| "jdiv rnd _ _ = NaN"

text \<open>
  \<open>Math.sqrt\<close>, \<open>Math.abs\<close>, \<open>Math.max\<close> and \<open>Math.pow(x, 2)\<close>; the square is taken
  as the rounded product of \<open>x\<close> with itself.
\<close>

fun jsqrt :: "(real \<Rightarrow> jsnum) \<Rightarrow> jsnum \<Rightarrow> jsnum" where
  "jsqrt rnd (Fin a) = (if a < 0 then NaN else rnd (sqrt a))"
| "jsqrt rnd PInf = PInf"
| "jsqrt rnd _ = NaN"

fun jabs :: "jsnum \<Rightarrow> jsnum" where
  "jabs (Fin a) = Fin \<bar>a\<bar>"
| "jabs NaN = NaN"
| "jabs _ = PInf"

fun jmax :: "jsnum \<Rightarrow> jsnum \<Rightarrow> jsnum" where
  "jmax (Fin a) (Fin b) = Fin (max a b)"
| "jmax NaN _ = NaN"
| "jmax _ NaN = NaN"
| "jmax PInf _ = PInf"
| "jmax _ PInf = PInf"
| "jmax NInf b = b"
| "jmax a NInf = a"

definition jsquare :: "(real \<Rightarrow> jsnum) \<Rightarrow> jsnum \<Rightarrow> jsnum" where
  "jsquare rnd x = jmul rnd x x"

text \<open>The comparisons \<open>a > b\<close> and \<open>a >= b\<close>: false as soon as one side is \<open>NaN\<close>.\<close>

fun jgt :: "jsnum \<Rightarrow> jsnum \<Rightarrow> bool" where
  "jgt (Fin a) (Fin b) = (b < a)"
| "jgt NaN _ = False"
| "jgt _ NaN = False"
| "jgt PInf PInf = False"
| "jgt PInf _ = True"
| "jgt NInf _ = False"
| "jgt _ NInf = True"
| "jgt _ PInf = False"

fun jge :: "jsnum \<Rightarrow> jsnum \<Rightarrow> bool" where
  "jge (Fin a) (Fin b) = (b \<le> a)"
| "jge NaN _ = False"
| "jge _ NaN = False"
| "jge PInf _ = True"
| "jge _ NInf = True"
| "jge NInf _ = False"
| "jge _ PInf = False"

text \<open>
  \<open>Number(x.toFixed(d))\<close>. For a number of magnitude below \<open>10^21\<close>, \<open>toFixed\<close> prints
  the multiple of \<open>10^-d\<close> next to the exact value of \<open>x\<close> (it rounds the absolute
  value, picks the larger candidate on a tie and puts the sign back), and \<open>Number\<close>
  reads the decimal back as the double next to it. A number of magnitude \<open>10^21\<close> or
  more, and a non-finite value, print as themselves and are read back unchanged.
\<close>

fun toFixed :: "(real \<Rightarrow> jsnum) \<Rightarrow> jsnum \<Rightarrow> nat \<Rightarrow> jsnum" where
  "toFixed rnd (Fin x) d =
     (if \<bar>x\<bar> < 10 ^ 21
      then rnd (sgn x * real_of_int \<lfloor>\<bar>x\<bar> * 10 ^ d + 1 / 2\<rfloor> / 10 ^ d)
      else Fin x)"
| "toFixed rnd v d = v"

text \<open>\<open>xs.reduce((a, b) => a + b, 0)\<close>.\<close>

definition jsum :: "(real \<Rightarrow> jsnum) \<Rightarrow> jsnum list \<Rightarrow> jsnum" where
  "jsum rnd xs = foldl (jadd rnd) (Fin 0) xs"

section \<open>Scoring functions\<close>

text \<open>
  The loop \<open>for (i = 1; i < prices.length; i++) returns.push((prices[i] - prices[i-1]) / prices[i-1])\<close>.
  Prices arrive as JSON numbers and are finite.
\<close>

fun price_returns :: "(real \<Rightarrow> jsnum) \<Rightarrow> real list \<Rightarrow> jsnum list" where
  "price_returns rnd (a # b # rest) =
     jdiv rnd (jsub rnd (Fin b) (Fin a)) (Fin a) # price_returns rnd (b # rest)"
| "price_returns rnd _ = []"

definition calculateVolatility :: "(real \<Rightarrow> jsnum) \<Rightarrow> real list \<Rightarrow> jsnum" where
  "calculateVolatility rnd ps =
     (if length ps = 0 then Fin 0
      else let returns = price_returns rnd ps;
               mean = jdiv rnd (jsum rnd returns) (Fin (real (length returns)));
               variance = jdiv rnd (foldl (\<lambda>a b. jadd rnd a (jsquare rnd (jsub rnd b mean)))
                                          (Fin 0) returns)
                                   (Fin (real (length returns)))
           in jsqrt rnd variance)"

text \<open>
  The accumulation loop of \<open>calculateMarketCorrelation\<close>: the state is
  (numerator, stockDenom, marketDenom).
\<close>

fun correlation_loop ::
  "(real \<Rightarrow> jsnum) \<Rightarrow> jsnum \<Rightarrow> jsnum \<Rightarrow> (jsnum \<times> jsnum) list
   \<Rightarrow> jsnum \<times> jsnum \<times> jsnum \<Rightarrow> jsnum \<times> jsnum \<times> jsnum" where
  "correlation_loop rnd stockMean marketMean [] acc = acc"
| "correlation_loop rnd stockMean marketMean ((s, m) # rest) (numerator, stockDenom, marketDenom) =
     (let stockDiff = jsub rnd s stockMean;
          marketDiff = jsub rnd m marketMean
      in correlation_loop rnd stockMean marketMean rest
           (jadd rnd numerator (jmul rnd stockDiff marketDiff),
            jadd rnd stockDenom (jmul rnd stockDiff stockDiff),
            jadd rnd marketDenom (jmul rnd marketDiff marketDiff)))"

definition calculateMarketCorrelation ::
  "(real \<Rightarrow> jsnum) \<Rightarrow> real list \<Rightarrow> real list \<Rightarrow> jsnum" where
  "calculateMarketCorrelation rnd stockPrices marketPrices =
     (if length stockPrices \<noteq> length marketPrices \<or> length stockPrices = 0 then Fin 0
      else let stockReturns = price_returns rnd stockPrices;
               marketReturns = price_returns rnd marketPrices;
               stockMean = jdiv rnd (jsum rnd stockReturns) (Fin (real (length stockReturns)));
               marketMean = jdiv rnd (jsum rnd marketReturns) (Fin (real (length marketReturns)))
           in case correlation_loop rnd stockMean marketMean (zip stockReturns marketReturns)
                     (Fin 0, Fin 0, Fin 0) of
                (numerator, stockDenom, marketDenom) \<Rightarrow>
                  jdiv rnd numerator (jsqrt rnd (jmul rnd stockDenom marketDenom)))"

text \<open>
  The loop of \<open>calculateConsistency\<close>: a step counts when \<open>currentMove\<close> and
  \<open>previousMove\<close> are both positive or both negative.
\<close>

fun consistentMoves :: "(real \<Rightarrow> jsnum) \<Rightarrow> real list \<Rightarrow> nat" where
  "consistentMoves rnd (a # b # c # rest) =
     (let currentMove = jsub rnd (Fin c) (Fin b);
          previousMove = jsub rnd (Fin b) (Fin a)
      in if (jgt currentMove (Fin 0) \<and> jgt previousMove (Fin 0))
            \<or> (jgt (Fin 0) currentMove \<and> jgt (Fin 0) previousMove) then 1 else 0)
     + consistentMoves rnd (b # c # rest)"
| "consistentMoves rnd _ = 0"

definition calculateConsistency :: "(real \<Rightarrow> jsnum) \<Rightarrow> real list \<Rightarrow> jsnum" where
  "calculateConsistency rnd ps =
     (if length ps < 3 then Fin 0
      else jdiv rnd (Fin (real (consistentMoves rnd ps))) (Fin (real (length ps - 2))))"

text \<open>The table \<open>weights\<close>, as the decimals the source spells.\<close>

definition weights :: "real list" where
  "weights = [0.15, 0.2, 0.25, 0.35, 0.45]"

text \<open>
  \<open>calculateTrendStrength\<close>: the loop index \<open>i\<close> runs over \<open>1 \<le> i < prices.length\<close>,
  \<open>i \<le> weights.length\<close>; every index it reads is in range.
\<close>

definition trend_change :: "(real \<Rightarrow> jsnum) \<Rightarrow> real list \<Rightarrow> nat \<Rightarrow> jsnum" where
  "trend_change rnd ps i =
     jdiv rnd (jsub rnd (Fin (ps ! (length ps - i))) (Fin (ps ! (length ps - i - 1))))
              (Fin (ps ! (length ps - i - 1)))"

definition calculateTrendStrength :: "(real \<Rightarrow> jsnum) \<Rightarrow> real list \<Rightarrow> jsnum" where
  "calculateTrendStrength rnd ps =
     (if length ps < 2 then Fin 0
      else let changes = map (\<lambda>i. jmul rnd (trend_change rnd ps i) (rnd (weights ! (i - 1))))
                             [1 ..< min (length ps) (length weights + 1)];
               momentum = (if length ps \<ge> 3
                           then (if jgt (trend_change rnd ps 1) (trend_change rnd ps 2)
                                 then rnd 0.02 else Fin 0)
                           else Fin 0);
               weightedTrend = jsum rnd changes
           in jmax (jadd rnd (jmul rnd weightedTrend (Fin 5)) momentum) (Fin 0))"

definition calculateConfidence ::
  "(real \<Rightarrow> jsnum) \<Rightarrow> jsnum \<Rightarrow> jsnum \<Rightarrow> real list \<Rightarrow> jsnum" where
  "calculateConfidence rnd volatility correlation ps =
     (let volatilityScore = jmax (Fin 0) (jsub rnd (Fin 1) (jmul rnd volatility (Fin 8)));
          correlationScore = jabs correlation;
          trendScore = calculateTrendStrength rnd ps;
          consistencyScore = calculateConsistency rnd ps
      in jadd rnd
           (jadd rnd
              (jadd rnd (jmul rnd volatilityScore (rnd 0.2)) (jmul rnd correlationScore (rnd 0.2)))
              (jmul rnd trendScore (rnd 0.4)))
           (jmul rnd consistencyScore (rnd 0.2)))"


section \<open>The opportunity scan\<close>

text \<open>
  One entry of the request's \<open>historical_data\<close> object. A field that is absent from the
  JSON is \<open>None\<close>; the scan reads it as \<open>historical_data[symbol]?.prices || []\<close>.
\<close>

record hist_entry =
  prices :: "real list option"
  market_prices :: "real list option"

record opportunity =
  symbol :: string
  current_price :: real
  target_price :: jsnum
  potential_gain :: jsnum
  confidence :: jsnum
  volatility :: jsnum
  market_correlation :: jsnum

datatype js_error = TypeError

definition historicalPrices :: "(string \<rightharpoonup> hist_entry) \<Rightarrow> string \<Rightarrow> real list" where
  "historicalPrices historical_data sy =
     (case historical_data sy of
        None \<Rightarrow> []
      | Some h \<Rightarrow> (case prices h of None \<Rightarrow> [] | Some ps \<Rightarrow> ps))"

definition marketPrices :: "(string \<rightharpoonup> hist_entry) \<Rightarrow> string \<Rightarrow> real list" where
  "marketPrices historical_data sy =
     (case historical_data sy of
        None \<Rightarrow> []
      | Some h \<Rightarrow> (case market_prices h of None \<Rightarrow> [] | Some ps \<Rightarrow> ps))"

text \<open>
  The locals \<open>trendPrediction\<close>, \<open>potentialGain\<close> and \<open>confidence\<close> of the per-symbol
  body, for a non-empty price array whose last element is \<open>currentPrice\<close>.
\<close>

definition trendPrediction :: "(real \<Rightarrow> jsnum) \<Rightarrow> real list \<Rightarrow> jsnum" where
  "trendPrediction rnd ps =
     (if length ps \<ge> 2
      then jmul rnd (Fin (last ps))
             (jadd rnd (Fin 1) (jmul rnd (calculateTrendStrength rnd ps) (rnd 0.15)))
      else jmul rnd (Fin (last ps)) (rnd 1.05))"

definition potentialGain :: "(real \<Rightarrow> jsnum) \<Rightarrow> real list \<Rightarrow> jsnum" where
  "potentialGain rnd ps =
     jmul rnd (jdiv rnd (jsub rnd (trendPrediction rnd ps) (Fin (last ps))) (Fin (last ps)))
              (Fin 100)"

definition scanConfidence :: "(real \<Rightarrow> jsnum) \<Rightarrow> real list \<Rightarrow> real list \<Rightarrow> jsnum" where
  "scanConfidence rnd ps ms =
     calculateConfidence rnd (calculateVolatility rnd ps) (calculateMarketCorrelation rnd ps ms) ps"

text \<open>
  The body of the \<open>try\<close> block run for one symbol. With an empty price array
  \<open>currentPrice\<close> is \<open>undefined\<close> and the log statement's \<open>currentPrice.toFixed(2)\<close>
  throws a TypeError; the statements before it are pure, so the model tests for it first.
  With a non-empty array of numbers nothing throws.
\<close>

definition analyseSymbol ::
  "(real \<Rightarrow> jsnum) \<Rightarrow> (string \<rightharpoonup> hist_entry) \<Rightarrow> real \<Rightarrow> string
   \<Rightarrow> js_error + opportunity option" where
  "analyseSymbol rnd historical_data min_gain_potential sy =
     (let ps = historicalPrices historical_data sy;
          ms = marketPrices historical_data sy
      in if ps = [] then Inl TypeError
         else if jge (potentialGain rnd ps) (Fin min_gain_potential)
                 \<and> jgt (scanConfidence rnd ps ms) (Fin 0.5)
         then Inr (Some \<lparr> symbol = sy,
                           current_price = last ps,
                           target_price = trendPrediction rnd ps,
                           potential_gain = toFixed rnd (potentialGain rnd ps) 2,
                           confidence = toFixed rnd (scanConfidence rnd ps ms) 2,
                           volatility = toFixed rnd (calculateVolatility rnd ps) 3,
                           market_correlation =
                             toFixed rnd (calculateMarketCorrelation rnd ps ms) 2 \<rparr>)
         else Inr None)"

text \<open>The \<open>catch\<close> of the per-symbol body logs the error and yields \<open>null\<close>.\<close>

definition processSymbol ::
  "(real \<Rightarrow> jsnum) \<Rightarrow> (string \<rightharpoonup> hist_entry) \<Rightarrow> real \<Rightarrow> string \<Rightarrow> opportunity option" where
  "processSymbol rnd historical_data min_gain_potential sy =
     (case analyseSymbol rnd historical_data min_gain_potential sy of
        Inl e \<Rightarrow> None
      | Inr r \<Rightarrow> r)"

text \<open>
  \<open>.sort((a, b) => b.potential_gain - a.potential_gain)\<close>. The sort of the language is
  stable; it is modelled as the stable insertion sort for this comparator, which puts
  \<open>a\<close> after \<open>b\<close> exactly when the comparator is positive.
\<close>

fun insertOpportunity ::
  "(real \<Rightarrow> jsnum) \<Rightarrow> opportunity \<Rightarrow> opportunity list \<Rightarrow> opportunity list" where
  "insertOpportunity rnd a [] = [a]"
| "insertOpportunity rnd a (b # rest) =
     (if jgt (jsub rnd (potential_gain b) (potential_gain a)) (Fin 0)
      then b # insertOpportunity rnd a rest
      else a # b # rest)"

definition sortOpportunities :: "(real \<Rightarrow> jsnum) \<Rightarrow> opportunity list \<Rightarrow> opportunity list" where
  "sortOpportunities rnd xs = foldr (insertOpportunity rnd) xs []"

text \<open>\<open>.filter(opp => opp !== null)\<close>.\<close>

fun dropNulls :: "'a option list \<Rightarrow> 'a list" where
  "dropNulls [] = []"
| "dropNulls (None # rest) = dropNulls rest"
| "dropNulls (Some x # rest) = x # dropNulls rest"

text \<open>
  The request body: \<open>symbols\<close> is \<open>None\<close> when the field is missing or not an array,
  \<open>historical_data\<close> when it is missing, and \<open>min_gain_potential\<close> defaults to 5.
  The handler answers with a validation error or with the sorted list. Its outer
  \<open>catch\<close>, which answers with status 500, is not reached: whatever can throw runs
  inside the \<open>try\<close> of one symbol.
\<close>

record scan_request =
  symbols :: "string list option"
  historical_data :: "(string \<rightharpoonup> hist_entry) option"
  min_gain_potential :: "real option"

datatype scan_response = ValidationError | Opportunities "opportunity list"

definition min_gain_or_default :: "real option \<Rightarrow> real" where
  "min_gain_or_default x = (case x of None \<Rightarrow> 5.0 | Some m \<Rightarrow> m)"

definition scanBlueChipStocks :: "(real \<Rightarrow> jsnum) \<Rightarrow> scan_request \<Rightarrow> scan_response" where
  "scanBlueChipStocks rnd req =
     (case (symbols req, historical_data req) of
        (Some syms, Some hist) \<Rightarrow>
          (let min_gain = min_gain_or_default (min_gain_potential req);
               opportunities = map (processSymbol rnd hist min_gain) syms
           in Opportunities (sortOpportunities rnd (dropNulls opportunities)))
      | _ \<Rightarrow> ValidationError)"


section \<open>Rate-limit handling of the provider client\<close>

text \<open>
  A string of the language is the list of its UTF-16 code units; \<open>code_units\<close> gives
  the string of an ASCII text.
\<close>

definition code_units :: "string \<Rightarrow> nat list" where
  "code_units s = map of_char s"

text \<open>
  \<open>parseInt(s)\<close> without a radix: leading white space is skipped, a sign is read, the
  prefix \<open>0x\<close> selects base 16, and the longest run of digits is converted; with no
  digit the result is \<open>NaN\<close>. White space is what the language trims: the tab, the line
  feed, the vertical tab, the form feed, the carriage return, the space, the no-break
  space, the other space separators of Unicode, the line and paragraph separators and
  the byte order mark. The integer read is turned into the double next to it.
\<close>

definition is_space :: "nat \<Rightarrow> bool" where
  "is_space c =
     (c \<in> set [0x09, 0x0A, 0x0B, 0x0C, 0x0D, 0x20, 0xA0, 0x1680, 0x2028, 0x2029,
               0x202F, 0x205F, 0x3000, 0xFEFF]
      \<or> (0x2000 \<le> c \<and> c \<le> 0x200A))"

definition digit_value :: "nat \<Rightarrow> nat \<Rightarrow> nat option" where
  "digit_value radix c =
     (let v = (if 48 \<le> c \<and> c \<le> 57 then Some (c - 48)
               else if 97 \<le> c \<and> c \<le> 122 then Some (c - 87)
               else if 65 \<le> c \<and> c \<le> 90 then Some (c - 55)
               else None)
      in case v of None \<Rightarrow> None | Some d \<Rightarrow> if d < radix then Some d else None)"

fun parse_digits :: "nat \<Rightarrow> nat list \<Rightarrow> nat option \<Rightarrow> nat option" where
  "parse_digits radix [] acc = acc"
| "parse_digits radix (c # cs) acc =
     (case digit_value radix c of
        None \<Rightarrow> acc
      | Some d \<Rightarrow> parse_digits radix cs
                   (Some ((case acc of None \<Rightarrow> 0 | Some a \<Rightarrow> a) * radix + d)))"

definition parseInt :: "(real \<Rightarrow> jsnum) \<Rightarrow> nat list \<Rightarrow> jsnum" where
  "parseInt rnd s =
     (let s1 = dropWhile is_space s;
          (negative, s2) = (case s1 of
                              c # r \<Rightarrow> if c = of_char (CHR ''-'') then (True, r)
                                       else if c = of_char (CHR ''+'') then (False, r)
                                       else (False, s1)
                            | [] \<Rightarrow> (False, s1));
          (radix, s3) = (case s2 of
                           a # b # r \<Rightarrow> if a = of_char (CHR ''0'')
                                            \<and> (b = of_char (CHR ''x'') \<or> b = of_char (CHR ''X''))
                                          then (16, r) else (10, s2)
                         | _ \<Rightarrow> (10, s2))
      in case parse_digits radix s3 None of
           None \<Rightarrow> NaN
         | Some n \<Rightarrow> rnd (if negative then - real n else real n))"

text \<open>
  What the client gets back for one transmission of a request: a response with its
  status and its \<open>retry-after\<close> header (\<open>None\<close> when the header is absent), or no
  response at all.
\<close>

datatype http_reply = Response (status: nat) (retry_after: "nat list option") | NoResponse

text \<open>
  What the timer and the transport see: the request configuration sent, and the
  delay in milliseconds handed to \<open>setTimeout\<close>.
\<close>

datatype 'c client_event = Send 'c | Sleep jsnum

datatype request_result =
    Returned nat
  | EmptyResults
  | ApiError nat
  | NetworkError
  | Pending

text \<open>\<open>retryAfter ? parseInt(retryAfter) * 1000 : 10000\<close>; the empty string is falsy.\<close>

definition waitTime :: "(real \<Rightarrow> jsnum) \<Rightarrow> nat list option \<Rightarrow> jsnum" where
  "waitTime rnd retryAfter =
     (case retryAfter of
        None \<Rightarrow> Fin 10000
      | Some h \<Rightarrow> if h = [] then Fin 10000 else jmul rnd (parseInt rnd h) (Fin 1000))"

text \<open>
  A request through the Polygon client and its response interceptor. The list holds the
  replies of the server to the successive transmissions; \<open>random n\<close> is the value of the
  \<open>n\<close>-th call of \<open>Math.random()\<close>. A status of 2xx goes to the success handler. On 429
  the interceptor sleeps, sleeps again for the jitter and calls \<open>this.polygon.request\<close>
  with the same configuration, which runs through the same interceptor. When the replies
  run out the request has been sent and is still waiting: \<open>Pending\<close>.
\<close>

fun polygon_request ::
  "(real \<Rightarrow> jsnum) \<Rightarrow> 'c \<Rightarrow> http_reply list \<Rightarrow> (nat \<Rightarrow> real) \<Rightarrow> nat
   \<Rightarrow> 'c client_event list \<times> request_result" where
  "polygon_request rnd cfg [] random n = ([Send cfg], Pending)"
| "polygon_request rnd cfg (NoResponse # rest) random n = ([Send cfg], NetworkError)"
| "polygon_request rnd cfg (Response st ra # rest) random n =
     (if 200 \<le> st \<and> st < 300 then ([Send cfg], Returned st)
      else if st = 429 then
        (let jitter = jmul rnd (Fin (random n)) (Fin 1000);
             (events, result) = polygon_request rnd cfg rest random (Suc n)
         in (Send cfg # Sleep (waitTime rnd ra) # Sleep jitter # events, result))
      else if st = 404 then ([Send cfg], EmptyResults)
      else ([Send cfg], ApiError st))"

definition attempt_count :: "'c client_event list \<Rightarrow> nat" where
  "attempt_count events = length (filter (\<lambda>e. case e of Send _ \<Rightarrow> True | Sleep _ \<Rightarrow> False) events)"

section \<open>The WebSocket manager\<close>

text \<open>
  The constructor's \<open>config.x || default\<close>: an absent or zero setting takes the default.
\<close>

record ws_config =
  cfg_reconnectAttempts :: int
  cfg_reconnectInterval :: int
  cfg_subscriptionBatchSize :: int
  cfg_subscriptionBatchInterval :: int

definition or_default :: "int option \<Rightarrow> int \<Rightarrow> int" where
  "or_default x d = (case x of None \<Rightarrow> d | Some v \<Rightarrow> if v = 0 then d else v)"

definition make_config :: "int option \<Rightarrow> int option \<Rightarrow> int option \<Rightarrow> int option \<Rightarrow> ws_config" where
  "make_config ra ri bs bi =
     \<lparr> cfg_reconnectAttempts = or_default ra 5,
       cfg_reconnectInterval = or_default ri 5000,
       cfg_subscriptionBatchSize = or_default bs 10,
       cfg_subscriptionBatchInterval = or_default bi 1000 \<rparr>"

text \<open>
  The manager's fields. A WebSocket object is identified by the order of its creation:
  \<open>sockets\<close> counts the objects constructed so far, \<open>closeCalls\<close> holds those on which
  \<open>close()\<close> has been called. The subscription queue is a \<open>Set\<close>, iterated in insertion
  order.
\<close>

record manager =
  connections :: "string \<rightharpoonup> nat"
  reconnectAttempts :: "string \<rightharpoonup> int"
  subscriptionQueue :: "string list"
  processingQueue :: bool
  config :: ws_config
  sockets :: nat
  closeCalls :: "nat set"

text \<open>The manager as the constructor leaves it.\<close>

definition new_manager :: "ws_config \<Rightarrow> manager" where
  "new_manager cfg =
     \<lparr> connections = Map.empty,
       reconnectAttempts = Map.empty,
       subscriptionQueue = [],
       processingQueue = False,
       config = cfg,
       sockets = 0,
       closeCalls = {} \<rparr>"

datatype ws_error = ConstructorThrows

text \<open>
  \<open>connectToSymbol\<close>; \<open>throws\<close> tells whether \<open>new WebSocket(url)\<close> throws at this call.
\<close>

definition connectToSymbol :: "bool \<Rightarrow> string \<Rightarrow> manager \<Rightarrow> ws_error + manager" where
  "connectToSymbol throws s m =
     (if connections m s \<noteq> None then Inr m
      else if throws then Inl ConstructorThrows
      else Inr (m\<lparr> connections := (connections m)(s \<mapsto> sockets m),
                    reconnectAttempts := (reconnectAttempts m)(s \<mapsto> 0),
                    sockets := Suc (sockets m) \<rparr>))"

definition unsubscribe :: "string \<Rightarrow> manager \<Rightarrow> manager" where
  "unsubscribe s m =
     (case connections m s of
        None \<Rightarrow> m
      | Some ws \<Rightarrow> m\<lparr> closeCalls := insert ws (closeCalls m),
                        connections := (connections m)(s := None),
                        reconnectAttempts := (reconnectAttempts m)(s := None) \<rparr>)"

text \<open>
  \<open>handleDisconnection\<close> runs in two parts, separated by the wait of
  \<open>reconnectInterval\<close> milliseconds. The first part returns whether the second is
  scheduled; the second is the call \<open>connectToSymbol(symbol)\<close>.
\<close>

definition handleDisconnection_start :: "string \<Rightarrow> manager \<Rightarrow> manager \<times> bool" where
  "handleDisconnection_start s m =
     (let attempts = (case reconnectAttempts m s of None \<Rightarrow> 0 | Some a \<Rightarrow> a)
      in if attempts < cfg_reconnectAttempts (config m)
         then (m\<lparr> reconnectAttempts := (reconnectAttempts m)(s \<mapsto> attempts + 1) \<rparr>, True)
         else (unsubscribe s m, False))"

definition handleDisconnection_resume :: "bool \<Rightarrow> string \<Rightarrow> manager \<Rightarrow> ws_error + manager" where
  "handleDisconnection_resume throws s m = connectToSymbol throws s m"

text \<open>The whole handler when nothing else runs during its wait.\<close>

definition handleDisconnection :: "bool \<Rightarrow> string \<Rightarrow> manager \<Rightarrow> ws_error + manager" where
  "handleDisconnection throws s m =
     (case handleDisconnection_start s m of
        (m', True) \<Rightarrow> handleDisconnection_resume throws s m'
      | (m', False) \<Rightarrow> Inr m')"

text \<open>\<open>xs.slice(0, n)\<close>: a negative \<open>n\<close> counts from the end.\<close>

definition slice0 :: "int \<Rightarrow> 'a list \<Rightarrow> 'a list" where
  "slice0 n xs = (if 0 \<le> n then take (nat n) xs else take (length xs - nat (- n)) xs)"

text \<open>
  \<open>batch.map(symbol => this.connectToSymbol(symbol))\<close> followed by \<open>Promise.all\<close>:
  every connect of the batch runs, in order; the result says whether all of them
  succeeded.
\<close>

fun connect_batch :: "(string \<Rightarrow> bool) \<Rightarrow> string list \<Rightarrow> manager \<Rightarrow> manager \<times> bool" where
  "connect_batch throws [] m = (m, True)"
| "connect_batch throws (s # rest) m =
     (case connectToSymbol (throws s) s m of
        Inl e \<Rightarrow> (fst (connect_batch throws rest m), False)
      | Inr m' \<Rightarrow> connect_batch throws rest m')"

text \<open>
  One pass of the body of the \<open>while\<close> loop of \<open>processSubscriptionQueue\<close>, up to the
  wait between two batches.
\<close>

definition drain_step :: "(string \<Rightarrow> bool) \<Rightarrow> manager \<Rightarrow> manager" where
  "drain_step throws m =
     (let batch = slice0 (cfg_subscriptionBatchSize (config m)) (subscriptionQueue m)
      in case connect_batch throws batch m of
           (m', True) \<Rightarrow> m'\<lparr> subscriptionQueue := filter (\<lambda>s. s \<notin> set batch) (subscriptionQueue m') \<rparr>
         | (m', False) \<Rightarrow> m')"

section \<open>The stock update hook\<close>

datatype message_type = Trade | Quote | Error

text \<open>The fields of the frame's payload that the hook reads; \<open>None\<close> is \<open>undefined\<close>.\<close>

record frame_data =
  data_p :: "real option"
  data_price :: "real option"
  data_c :: "real option"
  data_change :: "real option"
  data_changePercent :: "real option"
  data_v :: "real option"
  data_volume :: "real option"

record ws_message =
  msg_type :: message_type
  msg_symbol :: string
  msg_data :: frame_data
  msg_timestamp :: nat

record stock_update =
  upd_symbol :: string
  upd_price :: "real option"
  upd_change :: real
  upd_changePercent :: real
  upd_volume :: real
  upd_timestamp :: nat

text \<open>\<open>a || b\<close> on numbers: \<open>undefined\<close> and \<open>0\<close> are falsy.\<close>

definition js_or :: "real option \<Rightarrow> real option \<Rightarrow> real option" where
  "js_or a b = (case a of None \<Rightarrow> b | Some x \<Rightarrow> if x = 0 then b else a)"

definition or_zero :: "real option \<Rightarrow> real" where
  "or_zero a = (case a of None \<Rightarrow> 0 | Some x \<Rightarrow> x)"

definition make_update :: "ws_message \<Rightarrow> stock_update" where
  "make_update msg =
     \<lparr> upd_symbol = msg_symbol msg,
       upd_price = (if msg_type msg = Trade
                    then js_or (data_p (msg_data msg)) (data_price (msg_data msg))
                    else data_c (msg_data msg)),
       upd_change = or_zero (data_change (msg_data msg)),
       upd_changePercent = or_zero (data_changePercent (msg_data msg)),
       upd_volume = or_zero (js_or (data_v (msg_data msg)) (data_volume (msg_data msg))),
       upd_timestamp = msg_timestamp msg \<rparr>"

text \<open>\<open>Map.prototype.set\<close>: a known key keeps its place, a new key goes to the end.\<close>

fun map_set :: "'k \<Rightarrow> 'v \<Rightarrow> ('k \<times> 'v) list \<Rightarrow> ('k \<times> 'v) list" where
  "map_set k v [] = [(k, v)]"
| "map_set k v ((k', v') # rest) =
     (if k = k' then (k, v) # rest else (k', v') # map_set k v rest)"

text \<open>
  The hook's options and state. \<open>delivered\<close> records the calls of \<open>onUpdate\<close>, in order.
\<close>

record hook_options =
  has_onUpdate :: bool
  batchUpdates :: bool

record hook_state =
  updates :: "(string \<times> stock_update) list"
  hook_error :: "string option"
  delivered :: "stock_update list"

definition processMessage :: "hook_options \<Rightarrow> ws_message \<Rightarrow> hook_state \<Rightarrow> hook_state" where
  "processMessage opts msg st =
     (if msg_type msg = Error
      then st\<lparr> hook_error := Some (''WebSocket error for '' @ msg_symbol msg) \<rparr>
      else let update = make_update msg;
               st' = st\<lparr> updates := map_set (msg_symbol msg) update (updates st) \<rparr>
           in if \<not> batchUpdates opts \<and> has_onUpdate opts
              then st'\<lparr> delivered := delivered st' @ [update] \<rparr>
              else st')"

text \<open>
  The callback of the interval timer, which exists only in batched mode with a
  callback: it hands every value of the map to \<open>onUpdate\<close>.
\<close>

definition flush_batch :: "hook_options \<Rightarrow> hook_state \<Rightarrow> stock_update list" where
  "flush_batch opts st =
     (if \<not> batchUpdates opts \<or> \<not> has_onUpdate opts then []
      else if length (updates st) > 0 then map snd (updates st) else [])"

definition flush :: "hook_options \<Rightarrow> hook_state \<Rightarrow> hook_state" where
  "flush opts st = st\<lparr> delivered := delivered st @ flush_batch opts st \<rparr>"

datatype hook_event = Message ws_message | Tick

fun run_hook :: "hook_options \<Rightarrow> hook_event list \<Rightarrow> hook_state \<Rightarrow> hook_state" where
  "run_hook opts [] st = st"
| "run_hook opts (Message msg # rest) st = run_hook opts rest (processMessage opts msg st)"
| "run_hook opts (Tick # rest) st = run_hook opts rest (flush opts st)"

definition initial_hook :: hook_state where
  "initial_hook = \<lparr> updates = [], hook_error = None, delivered = [] \<rparr>"
section \<open>The rounding of doubles\<close>

text \<open>
  The properties of the rounding of binary doubles that the theorems below rely on:
  it is monotone, so it never yields \<open>NaN\<close>; a number it yields is a double and is
  rounded to itself; the natural numbers up to \<open>2^53\<close> and the powers \<open>2^-k\<close> for
  \<open>k \<le> 1022\<close> are doubles; and the difference of two distinct doubles is never rounded
  to zero. Exact arithmetic, \<open>Fin\<close>, has them too.
\<close>

definition double_rounding :: "(real \<Rightarrow> jsnum) \<Rightarrow> bool" where
  "double_rounding rnd =
     ((\<forall>x y. x \<le> y \<longrightarrow> jge (rnd y) (rnd x))
      \<and> (\<forall>x y. rnd x = Fin y \<longrightarrow> rnd y = Fin y)
      \<and> (\<forall>n::nat. real n \<le> 2 ^ 53 \<longrightarrow> rnd (real n) = Fin (real n))
      \<and> (\<forall>k::nat. k \<le> 1022 \<longrightarrow> rnd (1 / 2 ^ k) = Fin (1 / 2 ^ k))
      \<and> (\<forall>a b. rnd a = Fin a \<longrightarrow> rnd b = Fin b \<longrightarrow> a \<noteq> b \<longrightarrow> rnd (b - a) \<noteq> Fin 0))"

text \<open>
  The finite doubles of IEEE 754 (binary64) are the numbers \<open>m 2^(e - 1074)\<close> with an
  integer \<open>m\<close> of magnitude below \<open>2^53\<close> and \<open>0 \<le> e \<le> 2045\<close>; the largest is
  \<open>(2^53 - 1) 2^971\<close>. Rounding to nearest takes a real of magnitude below
  \<open>2^1024 - 2^970\<close> to a double next to it, and any other real to the infinity of its
  sign. Which of two doubles at the same distance is taken (the one with the even
  mantissa) plays no part below.
\<close>

definition is_double :: "real \<Rightarrow> bool" where
  "is_double x = (\<exists>m::int. \<exists>e::nat. \<bar>m\<bar> < 2 ^ 53 \<and> e \<le> 2045
                    \<and> x = real_of_int m * 2 ^ e / 2 ^ 1074)"

definition rounds_to_nearest :: "(real \<Rightarrow> jsnum) \<Rightarrow> bool" where
  "rounds_to_nearest rnd =
     (\<forall>x. if \<bar>x\<bar> < 2 ^ 1024 - 2 ^ 970
          then (\<exists>y. rnd x = Fin y \<and> is_double y \<and> (\<forall>d. is_double d \<longrightarrow> \<bar>y - x\<bar> \<le> \<bar>d - x\<bar>))
          else rnd x = (if 0 < x then PInf else NInf))"

text \<open>
  A value that a comparison can order: an infinity, or a real that is a double.
\<close>

definition orderable :: "(real \<Rightarrow> jsnum) \<Rightarrow> jsnum \<Rightarrow> bool" where
  "orderable rnd v = (case v of Fin y \<Rightarrow> rnd y = Fin y | NaN \<Rightarrow> False | _ \<Rightarrow> True)"

section \<open>Reference formulas\<close>

text \<open>
  The window of the trend: the most recent returns, at most 5, as the code computes
  them, the most recent one first.
\<close>

definition recent_returns :: "(real \<Rightarrow> jsnum) \<Rightarrow> real list \<Rightarrow> jsnum list" where
  "recent_returns rnd ps = take 5 (rev (price_returns rnd ps))"

text \<open>
  The momentum bonus: 0.02 when there are two returns and the most recent one exceeds
  the one before it.
\<close>

definition momentum_bonus :: "(real \<Rightarrow> jsnum) \<Rightarrow> real list \<Rightarrow> jsnum" where
  "momentum_bonus rnd ps =
     (case rev (price_returns rnd ps) of
        r1 # r2 # _ \<Rightarrow> if jgt r1 r2 then rnd 0.02 else Fin 0
      | _ \<Rightarrow> Fin 0)"

text \<open>
  The simple period returns \<open>(p[i] - p[i-1]) / p[i-1]\<close> of a price sequence, oldest
  first, as real numbers.
\<close>

fun real_returns :: "real list \<Rightarrow> real list" where
  "real_returns (a # b # rest) = (b - a) / a # real_returns (b # rest)"
| "real_returns _ = []"

text \<open>
  The trend strength as the specification words it, over the reals: the weights go
  from the oldest return of the window to the most recent one, the bonus is added, and
  the total is clamped below at 0.
\<close>

definition trendStrength_spec :: "real list \<Rightarrow> real" where
  "trendStrength_spec ps =
     max 0 (sum_list (map2 (*) (drop (length (real_returns ps) - 5) (real_returns ps)) weights)
            + (case rev (real_returns ps) of
                 r1 # r2 # _ \<Rightarrow> if r1 > r2 then 0.02 else 0
               | _ \<Rightarrow> 0))"

text \<open>
  \<open>y\<close> is \<open>x\<close> rounded to \<open>d\<close> decimals: a multiple of \<open>10^-d\<close> at distance at most
  half a unit of the last place.
\<close>

definition rounded_to :: "nat \<Rightarrow> real \<Rightarrow> real \<Rightarrow> bool" where
  "rounded_to d x y = (y * 10 ^ d \<in> \<int> \<and> \<bar>y - x\<bar> \<le> 1 / (2 * 10 ^ d))"

text \<open>
  A symbol passes the filter of the scan: it has prices, its computed potential gain is
  at least the minimum, and its computed confidence exceeds 0.5. Both values are the
  ones the code computes from the prices, before \<open>toFixed\<close>.
\<close>

definition passes_filter ::
  "(real \<Rightarrow> jsnum) \<Rightarrow> (string \<rightharpoonup> hist_entry) \<Rightarrow> real \<Rightarrow> string \<Rightarrow> bool" where
  "passes_filter rnd hist m s =
     (historicalPrices hist s \<noteq> []
      \<and> jge (potentialGain rnd (historicalPrices hist s)) (Fin m)
      \<and> jgt (scanConfidence rnd (historicalPrices hist s) (marketPrices hist s)) (Fin 0.5))"

text \<open>
  A string of decimal digits and the number it spells; \<open>decimal n\<close> is the usual
  spelling of \<open>n\<close>, without leading zeros.
\<close>

definition is_digits :: "nat list \<Rightarrow> bool" where
  "is_digits ds = (ds \<noteq> [] \<and> list_all (\<lambda>c. 48 \<le> c \<and> c \<le> 57) ds)"

definition digits_value :: "nat list \<Rightarrow> nat" where
  "digits_value ds = foldl (\<lambda>a c. a * 10 + (c - 48)) 0 ds"

fun decimal :: "nat \<Rightarrow> nat list" where
  "decimal n = (if n < 10 then [48 + n] else decimal (n div 10) @ [48 + n mod 10])"


text \<open>
  The reconnect budget of a symbol: how many more close events of its connection the
  manager answers with a reconnect attempt before it gives the symbol up.
\<close>

definition reconnect_budget :: "manager \<Rightarrow> string \<Rightarrow> int" where
  "reconnect_budget m s =
     cfg_reconnectAttempts (config m) - (case reconnectAttempts m s of None \<Rightarrow> 0 | Some a \<Rightarrow> a)"

text \<open>
  The latest update received for a symbol: the update made from the last message for
  it, errors aside, among all the events so far. Timer ticks play no part in it.
\<close>

fun update_messages :: "string \<Rightarrow> hook_event list \<Rightarrow> ws_message list" where
  "update_messages s [] = []"
| "update_messages s (Message msg # rest) =
     (if msg_symbol msg = s \<and> msg_type msg \<noteq> Error
      then msg # update_messages s rest else update_messages s rest)"
| "update_messages s (Tick # rest) = update_messages s rest"

definition latest_update :: "hook_event list \<Rightarrow> string \<Rightarrow> stock_update option" where
  "latest_update evs s =
     (if update_messages s evs = [] then None
      else Some (make_update (last (update_messages s evs))))"

section \<open>Facts about the rounding\<close>

lemma double_rounding_Fin: "double_rounding Fin"
  by (simp add: double_rounding_def)

lemma rnd_mono: "double_rounding rnd \<Longrightarrow> x \<le> y \<Longrightarrow> jge (rnd y) (rnd x)"
  by (simp add: double_rounding_def)

lemma rnd_idem: "double_rounding rnd \<Longrightarrow> rnd x = Fin y \<Longrightarrow> rnd y = Fin y"
  unfolding double_rounding_def by blast

lemma rnd_nat: "double_rounding rnd \<Longrightarrow> real n \<le> 2 ^ 53 \<Longrightarrow> rnd (real n) = Fin (real n)"
  by (simp add: double_rounding_def)

lemma rnd_pow2: "double_rounding rnd \<Longrightarrow> k \<le> 1022 \<Longrightarrow> rnd (1 / 2 ^ k) = Fin (1 / 2 ^ k)"
  by (simp add: double_rounding_def)

lemma rnd_difference:
  "double_rounding rnd \<Longrightarrow> rnd a = Fin a \<Longrightarrow> rnd b = Fin b \<Longrightarrow> a \<noteq> b \<Longrightarrow> rnd (b - a) \<noteq> Fin 0"
  unfolding double_rounding_def by blast

lemma rnd_0: "double_rounding rnd \<Longrightarrow> rnd 0 = Fin 0"
  using rnd_nat[of rnd 0] by simp

lemma rnd_1: "double_rounding rnd \<Longrightarrow> rnd 1 = Fin 1"
  using rnd_nat[of rnd 1] by simp

lemma rnd_half: "double_rounding rnd \<Longrightarrow> rnd (1 / 2) = Fin (1 / 2)"
  using rnd_pow2[of rnd 1] by simp

lemma rnd_eighth: "double_rounding rnd \<Longrightarrow> rnd (1 / 8) = Fin (1 / 8)"
  using rnd_pow2[of rnd 3] by simp

lemma jge_not_NaN: "jge a b \<Longrightarrow> a \<noteq> NaN \<and> b \<noteq> NaN"
  by (cases a; cases b) auto

lemma jgt_not_NaN: "jgt a b \<Longrightarrow> a \<noteq> NaN \<and> b \<noteq> NaN"
  by (cases a; cases b) auto

lemma jge_trans: "jge a b \<Longrightarrow> jge b c \<Longrightarrow> jge a c"
  by (cases a; cases b; cases c) auto

lemma jge_refl: "a \<noteq> NaN \<Longrightarrow> jge a a"
  by (cases a) auto

lemma jge_total: "a \<noteq> NaN \<Longrightarrow> b \<noteq> NaN \<Longrightarrow> jge a b \<or> jge b a"
  by (cases a; cases b) auto

lemma jgt_iff: "jgt a b \<longleftrightarrow> jge a b \<and> \<not> jge b a"
  by (cases a; cases b) auto

lemma rnd_not_NaN: "double_rounding rnd \<Longrightarrow> rnd x \<noteq> NaN"
  using rnd_mono[of rnd x x] jge_not_NaN by blast

lemma rnd_nonneg: "double_rounding rnd \<Longrightarrow> 0 \<le> x \<Longrightarrow> jge (rnd x) (Fin 0)"
  using rnd_mono[of rnd 0 x] rnd_0[of rnd] by simp

lemma rnd_nonpos: "double_rounding rnd \<Longrightarrow> x \<le> 0 \<Longrightarrow> jge (Fin 0) (rnd x)"
  using rnd_mono[of rnd x 0] rnd_0[of rnd] by simp

lemma rnd_le_1: "double_rounding rnd \<Longrightarrow> x \<le> 1 \<Longrightarrow> jge (Fin 1) (rnd x)"
  using rnd_mono[of rnd x 1] rnd_1[of rnd] by simp

text \<open>A decimal literal between \<open>1/8\<close> and \<open>1/2\<close> denotes a positive double.\<close>

lemma rnd_literal:
  assumes "double_rounding rnd" "1 / 8 \<le> x" "x \<le> 1 / 2"
  shows "\<exists>w. rnd x = Fin w \<and> 1 / 8 \<le> w \<and> w \<le> 1 / 2"
proof -
  have lo: "jge (rnd x) (Fin (1 / 8))"
    using rnd_mono[OF assms(1,2)] rnd_eighth[OF assms(1)] by simp
  have hi: "jge (Fin (1 / 2)) (rnd x)"
    using rnd_mono[OF assms(1,3)] rnd_half[OF assms(1)] by simp
  show ?thesis using lo hi by (cases "rnd x") auto
qed

lemma orderable_rnd: "double_rounding rnd \<Longrightarrow> orderable rnd (rnd x)"
  using rnd_not_NaN[of rnd x] rnd_idem[of rnd x]
  by (cases "rnd x") (auto simp: orderable_def)

lemma orderable_not_NaN: "orderable rnd v \<Longrightarrow> v \<noteq> NaN"
  by (auto simp: orderable_def)

lemma orderable_jadd:
  "double_rounding rnd \<Longrightarrow> jadd rnd a b \<noteq> NaN \<Longrightarrow> orderable rnd (jadd rnd a b)"
  using orderable_rnd[of rnd]
  by (cases a; cases b) (auto simp: orderable_def)

lemma orderable_jmul:
  "double_rounding rnd \<Longrightarrow> jmul rnd a b \<noteq> NaN \<Longrightarrow> orderable rnd (jmul rnd a b)"
  using orderable_rnd[of rnd]
  by (cases a; cases b) (auto simp: orderable_def)

section \<open>Rounding to the nearest double\<close>

lemma is_double_bound:
  assumes "is_double d"
  shows "\<bar>d\<bar> < 2 ^ 1024 - 2 ^ 970"
proof -
  obtain m :: int and e :: nat where me: "\<bar>m\<bar> < 2 ^ 53" "e \<le> 2045"
      "d = real_of_int m * 2 ^ e / 2 ^ 1074"
    using assms unfolding is_double_def by blast
  have m: "\<bar>real_of_int m\<bar> \<le> 2 ^ 53 - 1"
  proof -
    have "\<bar>m\<bar> \<le> 2 ^ 53 - 1" using me(1) by simp
    then have "real_of_int \<bar>m\<bar> \<le> real_of_int (2 ^ 53 - 1)" by (simp only: of_int_le_iff)
    then show ?thesis by simp
  qed
  have e: "(2::real) ^ e \<le> 2 ^ 2045" using me(2) by (intro power_increasing) simp_all
  have split: "(2::real) ^ 2045 = 2 ^ 971 * 2 ^ 1074" by (simp add: power_add[symmetric])
  have "\<bar>d\<bar> = \<bar>real_of_int m\<bar> * 2 ^ e / 2 ^ 1074" unfolding me(3) by (simp add: abs_mult)
  also have "\<dots> \<le> (2 ^ 53 - 1) * 2 ^ 2045 / 2 ^ 1074"
    using m e by (intro divide_right_mono mult_mono) simp_all
  also have "\<dots> = (2 ^ 53 - 1) * 2 ^ 971" unfolding split by simp
  also have "\<dots> = 2 ^ 1024 - 2 ^ 971"
  proof -
    have "(2::real) ^ 1024 = 2 ^ 53 * 2 ^ 971" by (simp add: power_add[symmetric])
    then show ?thesis by (simp add: algebra_simps)
  qed
  also have "\<dots> < 2 ^ 1024 - 2 ^ 970"
  proof -
    have "(2::real) ^ 970 < 2 ^ 971" by (rule power_strict_increasing) simp_all
    then show ?thesis by simp
  qed
  finally show ?thesis .
qed

lemma nearest_double:
  assumes "rounds_to_nearest rnd" "is_double d"
  shows "rnd d = Fin d"
proof -
  have "\<bar>d\<bar> < 2 ^ 1024 - 2 ^ 970" using is_double_bound[OF assms(2)] .
  then obtain y where y: "rnd d = Fin y" "\<forall>d'. is_double d' \<longrightarrow> \<bar>y - d\<bar> \<le> \<bar>d' - d\<bar>"
    using assms(1) unfolding rounds_to_nearest_def by (metis (no_types, lifting))
  have "\<bar>y - d\<bar> \<le> \<bar>d - d\<bar>" using y(2) assms(2) by blast
  then show ?thesis using y(1) by simp
qed

lemma nearest_result:
  assumes "rounds_to_nearest rnd" "rnd x = Fin y"
  shows "is_double y \<and> \<bar>x\<bar> < 2 ^ 1024 - 2 ^ 970 \<and> (\<forall>d. is_double d \<longrightarrow> \<bar>y - x\<bar> \<le> \<bar>d - x\<bar>)"
proof (cases "\<bar>x\<bar> < 2 ^ 1024 - 2 ^ 970")
  case True
  then obtain y' where y: "rnd x = Fin y'" "is_double y'"
      "\<forall>d. is_double d \<longrightarrow> \<bar>y' - x\<bar> \<le> \<bar>d - x\<bar>"
    using assms(1) unfolding rounds_to_nearest_def by (metis (no_types, lifting))
  then show ?thesis using assms(2) True by simp
next
  case False
  then have "rnd x = (if 0 < x then PInf else NInf)"
    using assms(1) unfolding rounds_to_nearest_def by (metis (no_types, lifting))
  then show ?thesis using assms(2) by (simp split: if_splits)
qed

lemma nearest_cases:
  assumes "rounds_to_nearest rnd"
  shows "(\<exists>y. rnd x = Fin y \<and> \<bar>x\<bar> < 2 ^ 1024 - 2 ^ 970)
         \<or> (rnd x = PInf \<and> 2 ^ 1024 - 2 ^ 970 \<le> x)
         \<or> (rnd x = NInf \<and> x \<le> - (2 ^ 1024 - 2 ^ 970))"
proof (cases "\<bar>x\<bar> < 2 ^ 1024 - 2 ^ 970")
  case True
  then show ?thesis using assms unfolding rounds_to_nearest_def by (metis (no_types, lifting))
next
  case False
  then have r: "rnd x = (if 0 < x then PInf else NInf)"
    using assms(1) unfolding rounds_to_nearest_def by (metis (no_types, lifting))
  have p: "(0::real) < 2 ^ 1024 - 2 ^ 970"
  proof -
    have "(2::real) ^ 970 < 2 ^ 1024" by (rule power_strict_increasing) simp_all
    then show ?thesis by simp
  qed
  show ?thesis
  proof (cases "0 < x")
    case True
    then show ?thesis using r False by simp
  next
    case n: False
    then have "x \<le> - (2 ^ 1024 - 2 ^ 970)" using False by linarith
    then show ?thesis using r n by simp
  qed
qed

lemma nearest_mono:
  assumes "rounds_to_nearest rnd" "x \<le> y"
  shows "jge (rnd y) (rnd x)"
proof -
  have p: "(0::real) < 2 ^ 1024 - 2 ^ 970"
  proof -
    have "(2::real) ^ 970 < 2 ^ 1024" by (rule power_strict_increasing) simp_all
    then show ?thesis by simp
  qed
  define T :: real where "T = 2 ^ 1024 - 2 ^ 970"
  have T: "0 < T" using p by (simp add: T_def)
  consider (fx) a where "rnd x = Fin a" "\<bar>x\<bar> < T" | (px) "rnd x = PInf" "T \<le> x"
    | (nx) "rnd x = NInf" "x \<le> - T"
    using nearest_cases[OF assms(1), of x] unfolding T_def by blast
  then show ?thesis
  proof cases
    case fx
    consider (fy) b where "rnd y = Fin b" "\<bar>y\<bar> < T" | (py) "rnd y = PInf" "T \<le> y"
      | (ny) "rnd y = NInf" "y \<le> - T"
      using nearest_cases[OF assms(1), of y] unfolding T_def by blast
    then show ?thesis
    proof cases
      case fy
      have na: "\<bar>a - x\<bar> \<le> \<bar>b - x\<bar>"
        using nearest_result[OF assms(1) fx(1)] nearest_result[OF assms(1) fy(1)] by blast
      have nb: "\<bar>b - y\<bar> \<le> \<bar>a - y\<bar>"
        using nearest_result[OF assms(1) fx(1)] nearest_result[OF assms(1) fy(1)] by blast
      have "a \<le> b"
      proof (rule ccontr)
        assume "\<not> a \<le> b"
        then have "b < a" by simp
        then have "x = y" using na nb assms(2) by linarith
        then show False using fx(1) fy(1) \<open>b < a\<close> by simp
      qed
      then show ?thesis using fx(1) fy(1) by simp
    next
      case py
      then show ?thesis using fx(1) by simp
    next
      case ny
      then show ?thesis using fx(2) assms(2) by linarith
    qed
  next
    case px
    then have "T \<le> y" using assms(2) by simp
    then have "rnd y = PInf" using nearest_cases[OF assms(1), of y] T unfolding T_def[symmetric] by auto
    then show ?thesis using px(1) by simp
  next
    case nx
    have "rnd y \<noteq> NaN" using nearest_cases[OF assms(1), of y] by auto
    then show ?thesis using nx(1) by (cases "rnd y") simp_all
  qed
qed

lemma is_double_nat:
  assumes "real n \<le> 2 ^ 53"
  shows "is_double (real n)"
proof (cases "real n < 2 ^ 53")
  case True
  then have "int n < 2 ^ 53" by (metis of_int_less_iff of_int_numeral of_int_of_nat_eq of_int_power)
  then have "\<bar>int n\<bar> < 2 ^ 53 \<and> (1074::nat) \<le> 2045
             \<and> real n = real_of_int (int n) * 2 ^ 1074 / 2 ^ 1074" by simp
  then show ?thesis unfolding is_double_def by blast
next
  case False
  then have n: "real n = 2 ^ 53" using assms by simp
  have "(2::real) ^ 53 = 2 ^ 52 * 2 ^ 1075 / 2 ^ 1074"
  proof -
    have "(2::real) ^ 1075 = 2 * 2 ^ 1074" by simp
    then show ?thesis by simp
  qed
  then have "\<bar>(2::int) ^ 52\<bar> < 2 ^ 53 \<and> (1075::nat) \<le> 2045
             \<and> real n = real_of_int (2 ^ 52) * 2 ^ 1075 / 2 ^ 1074" using n by simp
  then show ?thesis unfolding is_double_def by blast
qed

lemma pow2_quotient: "k \<le> n \<Longrightarrow> (1::real) / 2 ^ k = 2 ^ (n - k) / 2 ^ n"
  by (simp add: power_diff)

lemma is_double_pow2:
  assumes "k \<le> 1022"
  shows "is_double (1 / 2 ^ k)"
proof -
  have "k \<le> 1074" using assms by simp
  then have "(1::real) / 2 ^ k = 2 ^ (1074 - k) / 2 ^ 1074" by (rule pow2_quotient)
  then have q: "(1::real) / 2 ^ k = real_of_int 1 * 2 ^ (1074 - k) / 2 ^ 1074"
    by (simp only: of_int_1 mult_1)
  have "\<bar>1::int\<bar> < 2 ^ 53" "1074 - k \<le> 2045" by simp_all
  then show ?thesis unfolding is_double_def using q by blast
qed

lemma is_double_grid:
  assumes "is_double a"
  shows "\<exists>N::int. a = real_of_int N / 2 ^ 1074"
proof -
  obtain m :: int and e :: nat where "a = real_of_int m * 2 ^ e / 2 ^ 1074"
    using assms unfolding is_double_def by blast
  then have "a = real_of_int (m * 2 ^ e) / 2 ^ 1074" by simp
  then show ?thesis by blast
qed

lemma is_double_unit: "is_double (1 / 2 ^ 1074)" "is_double (- (1 / 2 ^ 1074))"
proof -
  have "\<bar>1::int\<bar> < 2 ^ 53 \<and> (0::nat) \<le> 2045
        \<and> (1::real) / 2 ^ 1074 = real_of_int 1 * 2 ^ 0 / 2 ^ 1074" by simp
  then show "is_double (1 / 2 ^ 1074)" unfolding is_double_def by blast
  have "\<bar>-1::int\<bar> < 2 ^ 53 \<and> (0::nat) \<le> 2045
        \<and> - ((1::real) / 2 ^ 1074) = real_of_int (-1) * 2 ^ 0 / 2 ^ 1074" by simp
  then show "is_double (- (1 / 2 ^ 1074))" unfolding is_double_def by blast
qed

lemma nearest_difference:
  assumes "rounds_to_nearest rnd" "rnd a = Fin a" "rnd b = Fin b" "a \<noteq> b"
  shows "rnd (b - a) \<noteq> Fin 0"
proof
  assume z: "rnd (b - a) = Fin 0"
  define u :: real where "u = 1 / 2 ^ 1074"
  have u: "0 < u" by (simp add: u_def)
  obtain Na :: int where Na: "a = real_of_int Na * u"
    using is_double_grid nearest_result[OF assms(1,2)] unfolding u_def by auto
  obtain Nb :: int where Nb: "b = real_of_int Nb * u"
    using is_double_grid nearest_result[OF assms(1,3)] unfolding u_def by auto
  define N where "N = Nb - Na"
  have d: "b - a = real_of_int N * u" by (simp add: Na Nb N_def algebra_simps)
  have "N \<noteq> 0" using assms(4) Na Nb by (auto simp: N_def)
  have near: "\<bar>0 - (b - a)\<bar> \<le> \<bar>d - (b - a)\<bar>" if "is_double d" for d
    using nearest_result[OF assms(1) z] that by blast
  show False
  proof (cases "0 < N")
    case True
    then have "1 \<le> real_of_int N" by simp
    then have "u \<le> real_of_int N * u" using u by simp
    moreover have "\<bar>0 - real_of_int N * u\<bar> \<le> \<bar>u - real_of_int N * u\<bar>"
      using near[OF is_double_unit(1)] unfolding d u_def .
    ultimately show False using u by linarith
  next
    case False
    then have "N < 0" using \<open>N \<noteq> 0\<close> by simp
    then have "real_of_int N \<le> - 1" by simp
    then have "real_of_int N * u \<le> - u" using u by (metis mult_minus1 mult_right_mono less_imp_le)
    moreover have "\<bar>0 - real_of_int N * u\<bar> \<le> \<bar>- u - real_of_int N * u\<bar>"
      using near[OF is_double_unit(2)] unfolding d u_def .
    ultimately show False using u by linarith
  qed
qed

text \<open>
  Rounding to a nearest double has the properties collected in \<open>double_rounding\<close>,
  so every theorem below that assumes them holds of the arithmetic of the machine.
\<close>

lemma rounds_to_nearest_double_rounding:
  assumes "rounds_to_nearest rnd"
  shows "double_rounding rnd"
  unfolding double_rounding_def
proof (intro conjI allI impI)
  fix x y :: real assume "x \<le> y"
  then show "jge (rnd y) (rnd x)" by (rule nearest_mono[OF assms])
next
  fix x y assume "rnd x = Fin y"
  then have "is_double y" using nearest_result[OF assms] by blast
  then show "rnd y = Fin y" by (rule nearest_double[OF assms])
next
  fix n :: nat assume "real n \<le> 2 ^ 53"
  then show "rnd (real n) = Fin (real n)" using nearest_double[OF assms is_double_nat] by blast
next
  fix k :: nat assume "k \<le> 1022"
  then show "rnd (1 / 2 ^ k) = Fin (1 / 2 ^ k)" using nearest_double[OF assms is_double_pow2] by blast
next
  fix a b assume "rnd a = Fin a" "rnd b = Fin b" "a \<noteq> b"
  then show "rnd (b - a) \<noteq> Fin 0" by (rule nearest_difference[OF assms])
qed


lemma finite_doubles: "finite {d. is_double d}"
proof -
  have "{d. is_double d}
        \<subseteq> (\<lambda>(m, e). real_of_int m * 2 ^ e / 2 ^ 1074) ` ({- (2 ^ 53) .. 2 ^ 53} \<times> {0 .. 2045})"
    unfolding is_double_def by force
  moreover have "finite ((\<lambda>(m::int, e::nat). real_of_int m * 2 ^ e / 2 ^ 1074)
                          ` ({- (2 ^ 53) .. 2 ^ 53} \<times> {0 .. 2045}))"
    by (intro finite_imageI finite_cartesian_product) simp_all
  ultimately show ?thesis by (rule finite_subset)
qed

lemma nearest_double_exists: "\<exists>y. is_double y \<and> (\<forall>d. is_double d \<longrightarrow> \<bar>y - x\<bar> \<le> \<bar>d - x\<bar>)"
proof -
  let ?D = "{d. is_double d}"
  have ne: "?D \<noteq> {}" using is_double_unit(1) by blast
  have "finite ((\<lambda>d. \<bar>d - x\<bar>) ` ?D)" "(\<lambda>d. \<bar>d - x\<bar>) ` ?D \<noteq> {}"
    using finite_doubles ne by simp_all
  then have "Min ((\<lambda>d. \<bar>d - x\<bar>) ` ?D) \<in> (\<lambda>d. \<bar>d - x\<bar>) ` ?D" by (rule Min_in)
  then obtain y where y: "is_double y" "\<bar>y - x\<bar> = Min ((\<lambda>d. \<bar>d - x\<bar>) ` ?D)" by auto
  have "\<bar>y - x\<bar> \<le> \<bar>d - x\<bar>" if "is_double d" for d
    unfolding y(2) using that finite_doubles by (intro Min_le) simp_all
  then show ?thesis using y(1) by blast
qed

text \<open>The doubles are finitely many, so every real has a nearest one.\<close>

lemma rounds_to_nearest_exists: "\<exists>rnd. rounds_to_nearest rnd"
proof -
  have "\<forall>x. \<exists>r. if \<bar>x\<bar> < 2 ^ 1024 - 2 ^ 970
                then (\<exists>y. r = Fin y \<and> is_double y \<and> (\<forall>d. is_double d \<longrightarrow> \<bar>y - x\<bar> \<le> \<bar>d - x\<bar>))
                else r = (if 0 < x then PInf else NInf)"
    using nearest_double_exists by (metis (full_types))
  then obtain rnd where "\<forall>x. if \<bar>x\<bar> < 2 ^ 1024 - 2 ^ 970
                then (\<exists>y. rnd x = Fin y \<and> is_double y \<and> (\<forall>d. is_double d \<longrightarrow> \<bar>y - x\<bar> \<le> \<bar>d - x\<bar>))
                else rnd x = (if 0 < x then PInf else NInf)"
    by (rule choice[THEN exE])
  then show ?thesis unfolding rounds_to_nearest_def by blast
qed

section \<open>Short price arrays\<close>

lemma length_price_returns [simp]: "length (price_returns rnd ps) = length ps - 1"
  by (induction rnd ps rule: price_returns.induct) auto

lemma calculateTrendStrength_short: "length ps < 2 \<Longrightarrow> calculateTrendStrength rnd ps = Fin 0"
  by (simp add: calculateTrendStrength_def)

lemma calculateConsistency_short: "length ps < 3 \<Longrightarrow> calculateConsistency rnd ps = Fin 0"
  by (simp add: calculateConsistency_def)

lemma calculateVolatility_empty: "calculateVolatility rnd [] = Fin 0"
  by (simp add: calculateVolatility_def)

text \<open>
  Claim C4. A price array of length below 2 should have volatility 0. The guard of
  \<open>calculateVolatility\<close> tests for the empty array only: with a single price the list of
  returns is empty, its mean is \<open>0 / 0\<close>, and the function returns \<open>NaN\<close>, whatever
  the price and whatever the rounding. (The trend strength and the consistency of a
  short array are 0, as the two lemmas above show, and no scoring function throws.)
\<close>

theorem calculateVolatility_single_price: "calculateVolatility rnd [p] = NaN"
  by (simp add: calculateVolatility_def jsum_def)

section \<open>Printing with a fixed number of decimals\<close>

lemma toFixed_rounded:
  assumes "\<bar>x\<bar> < 10 ^ 21"
  shows "\<exists>y. rounded_to d x y \<and> toFixed rnd (Fin x) d = rnd y"
proof -
  define n where "n = \<lfloor>\<bar>x\<bar> * 10 ^ d + 1 / 2\<rfloor>"
  define y where "y = sgn x * real_of_int n / 10 ^ d"
  have p: "(0::real) < 10 ^ d" by simp
  have "y * 10 ^ d = sgn x * real_of_int n" by (simp add: y_def)
  moreover have "sgn x * real_of_int n \<in> \<int>"
    by (cases "x = 0"; cases "0 < x") (auto simp: sgn_real_def)
  ultimately have int: "y * 10 ^ d \<in> \<int>" by simp
  have fl: "\<bar>real_of_int n - \<bar>x\<bar> * 10 ^ d\<bar> \<le> 1 / 2"
    unfolding n_def by linarith
  have "\<bar>y - x\<bar> \<le> (1 / 2) / 10 ^ d"
  proof (cases "x = 0")
    case True
    then show ?thesis by (simp add: y_def)
  next
    case False
    have "y - x = sgn x * (real_of_int n - \<bar>x\<bar> * 10 ^ d) / 10 ^ d"
      by (cases "0 < x") (auto simp: y_def sgn_real_def field_simps)
    then have "\<bar>y - x\<bar> = \<bar>sgn x\<bar> * \<bar>real_of_int n - \<bar>x\<bar> * 10 ^ d\<bar> / 10 ^ d"
      by (simp add: abs_mult)
    also have "\<bar>sgn x\<bar> = 1" using False by (simp add: sgn_real_def)
    finally have "\<bar>y - x\<bar> = \<bar>real_of_int n - \<bar>x\<bar> * 10 ^ d\<bar> / 10 ^ d" by simp
    then show ?thesis using divide_right_mono[OF fl, of "10 ^ d"] by simp
  qed
  then have "\<bar>y - x\<bar> \<le> 1 / (2 * 10 ^ d)" by simp
  then have "rounded_to d x y" using int by (simp add: rounded_to_def)
  moreover have "toFixed rnd (Fin x) d = rnd y"
    using assms by (simp add: y_def n_def)
  ultimately show ?thesis by blast
qed

lemma rounded_confidence_ge_half:
  assumes "rounded_to 2 c c'" "0.5 < c"
  shows "0.5 \<le> c'"
proof -
  obtain k :: int where k: "c' * 10 ^ 2 = real_of_int k"
    using assms(1) unfolding rounded_to_def by (auto elim: Ints_cases)
  have "\<bar>c' - c\<bar> \<le> 1 / (2 * 10 ^ 2)" using assms(1) unfolding rounded_to_def by blast
  then have "\<bar>c' - c\<bar> \<le> 1 / 200" by simp
  then have "c - 1 / 200 \<le> c'" by linarith
  then have "49.5 < c' * 100" using assms(2) by linarith
  then have "49.5 < real_of_int k" using k by simp
  then have "49 < k" by linarith
  then have "50 \<le> k" by simp
  then have "50 \<le> real_of_int k" by simp
  then have "50 \<le> c' * 100" using k by simp
  then show ?thesis by simp
qed

lemma orderable_toFixed:
  assumes "double_rounding rnd" "orderable rnd v"
  shows "orderable rnd (toFixed rnd v d)"
proof (cases v)
  case (Fin x)
  then show ?thesis
    using assms orderable_rnd[OF assms(1)] by (cases "\<bar>x\<bar> < 10 ^ 21") simp_all
qed (use assms in \<open>simp_all add: orderable_def\<close>)

text \<open>A confidence above one half is reported as one half at least.\<close>

lemma toFixed_confidence_ge_half:
  assumes "double_rounding rnd" "jgt c (Fin 0.5)"
  shows "jge (toFixed rnd c 2) (Fin 0.5)"
proof (cases c)
  case (Fin x)
  then have x: "0.5 < x" using assms(2) by simp
  show ?thesis
  proof (cases "\<bar>x\<bar> < 10 ^ 21")
    case True
    then obtain y where y: "rounded_to 2 x y" "toFixed rnd (Fin x) 2 = rnd y"
      using toFixed_rounded by blast
    have "1 / 2 \<le> y" using rounded_confidence_ge_half[OF y(1) x] by simp
    then have "jge (rnd y) (Fin (1 / 2))"
      using rnd_mono[OF assms(1)] rnd_half[OF assms(1)] by metis
    then show ?thesis using y(2) Fin by simp
  next
    case False
    then show ?thesis using Fin x by simp
  qed
qed (use assms in simp_all)

section \<open>Trend strength\<close>

lemma price_returns_nth:
  "Suc k < length ps
   \<Longrightarrow> price_returns rnd ps ! k = jdiv rnd (jsub rnd (Fin (ps ! Suc k)) (Fin (ps ! k))) (Fin (ps ! k))"
proof (induction rnd ps arbitrary: k rule: price_returns.induct)
  case (1 rnd a b rest)
  then show ?case by (cases k) auto
qed auto

text \<open>The \<open>i\<close>-th pass of the loop reads the \<open>i\<close>-th most recent return.\<close>

lemma trend_change_recent:
  assumes "1 \<le> i" "i < length ps"
  shows "trend_change rnd ps i = rev (price_returns rnd ps) ! (i - 1)"
proof -
  define k where "k = length ps - i - 1"
  have k: "Suc k < length ps" "length ps - i = Suc k" "length ps - i - 1 = k"
    using assms by (simp_all add: k_def)
  have "length ps - 1 - Suc (i - 1) = k" using assms by (simp add: k_def)
  then have "rev (price_returns rnd ps) ! (i - 1) = price_returns rnd ps ! k"
    using assms by (simp add: rev_nth)
  also have "\<dots> = jdiv rnd (jsub rnd (Fin (ps ! Suc k)) (Fin (ps ! k))) (Fin (ps ! k))"
    using price_returns_nth k by simp
  finally show ?thesis using k by (simp add: trend_change_def)
qed

lemma map2_nth:
  "map2 f xs ys = map (\<lambda>j. f (xs ! j) (ys ! j)) [0 ..< min (length xs) (length ys)]"
  by (rule nth_equalityI) auto

lemma map_shift:
  "map (\<lambda>i. f (i - 1)) [1 ..< Suc m] = map f [0 ..< m]"
proof -
  have "[1 ..< Suc m] = map Suc [0 ..< m]" by (simp add: map_Suc_upt)
  then show ?thesis by (simp add: comp_def)
qed

lemma length_recent_returns: "length (recent_returns rnd ps) = min (length ps - 1) 5"
  by (simp add: recent_returns_def min.commute)

text \<open>
  The list \<open>changes\<close> of the loop: the \<open>i\<close>-th most recent return meets
  \<open>weights[i - 1]\<close>, so the most recent return has the weight 0.15.
\<close>

lemma trend_changes:
  assumes "2 \<le> length ps"
  shows "map (\<lambda>i. jmul rnd (trend_change rnd ps i) (rnd (weights ! (i - 1))))
             [1 ..< min (length ps) (length weights + 1)]
         = map2 (\<lambda>r w. jmul rnd r (rnd w)) (recent_returns rnd ps) weights"
proof -
  let ?rs = "rev (price_returns rnd ps)"
  have m: "min (length ps) (length weights + 1) = Suc (min (length ps - 1) 5)"
    using assms by (simp add: weights_def)
  have l: "min (length (recent_returns rnd ps)) (length weights) = min (length ps - 1) 5"
    by (simp add: weights_def length_recent_returns)
  have "map (\<lambda>i. jmul rnd (trend_change rnd ps i) (rnd (weights ! (i - 1))))
            [1 ..< Suc (min (length ps - 1) 5)]
        = map (\<lambda>i. jmul rnd (?rs ! (i - 1)) (rnd (weights ! (i - 1))))
              [1 ..< Suc (min (length ps - 1) 5)]"
    by (rule map_cong) (auto simp: trend_change_recent)
  also have "\<dots> = map (\<lambda>j. jmul rnd (?rs ! j) (rnd (weights ! j))) [0 ..< min (length ps - 1) 5]"
    by (rule map_shift)
  also have "\<dots> = map (\<lambda>j. jmul rnd (recent_returns rnd ps ! j) (rnd (weights ! j)))
                       [0 ..< min (length ps - 1) 5]"
    by (rule map_cong) (auto simp: recent_returns_def)
  also have "\<dots> = map2 (\<lambda>r w. jmul rnd r (rnd w)) (recent_returns rnd ps) weights"
    using map2_nth[of "\<lambda>r w. jmul rnd r (rnd w)" "recent_returns rnd ps" weights] l by simp
  finally show ?thesis unfolding m .
qed

lemma list_two_cases:
  obtains (two) a b rest where "xs = a # b # rest" | (short) "length xs < 2"
  by (cases xs; cases "tl xs") auto

lemma momentum_long:
  assumes "3 \<le> length ps"
  shows "(if jgt (trend_change rnd ps 1) (trend_change rnd ps 2) then rnd 0.02 else Fin 0)
         = momentum_bonus rnd ps"
proof -
  have "\<not> length (rev (price_returns rnd ps)) < 2" using assms by simp
  then obtain r1 r2 rest where r: "rev (price_returns rnd ps) = r1 # r2 # rest"
    by (cases "rev (price_returns rnd ps)" rule: list_two_cases) auto
  have "trend_change rnd ps 1 = r1" "trend_change rnd ps 2 = r2"
    using assms r by (simp_all add: trend_change_recent)
  then show ?thesis by (simp add: momentum_bonus_def r)
qed

lemma momentum_short: "length ps < 3 \<Longrightarrow> momentum_bonus rnd ps = Fin 0"
proof -
  assume "length ps < 3"
  then have "length (rev (price_returns rnd ps)) < 2" by simp
  then have "rev (price_returns rnd ps) = [] \<or> (\<exists>r. rev (price_returns rnd ps) = [r])"
    by (cases "rev (price_returns rnd ps)"; cases "tl (rev (price_returns rnd ps))") auto
  then show ?thesis by (auto simp: momentum_bonus_def)
qed

text \<open>
  The value \<open>calculateTrendStrength\<close> computes, with the pairing of returns and
  weights that the loop makes.
\<close>

lemma calculateTrendStrength_window:
  assumes "2 \<le> length ps"
  shows "calculateTrendStrength rnd ps
         = jmax (jadd rnd
                   (jmul rnd (jsum rnd (map2 (\<lambda>r w. jmul rnd r (rnd w)) (recent_returns rnd ps) weights))
                             (Fin 5))
                   (momentum_bonus rnd ps))
                (Fin 0)"
proof -
  have m: "(if 3 \<le> length ps
            then (if jgt (trend_change rnd ps 1) (trend_change rnd ps 2) then rnd 0.02 else Fin 0)
            else Fin 0) = momentum_bonus rnd ps"
    using momentum_long[of ps rnd] momentum_short[of ps rnd] by (cases "3 \<le> length ps") auto
  have n: "\<not> length ps < 2" using assms by simp
  show ?thesis
    unfolding calculateTrendStrength_def Let_def trend_changes[OF assms] m
    using n by simp
qed

lemma zip_take_right: "zip xs (take (length xs) ys) = zip xs ys"
proof -
  have "zip xs ys = take (length xs) (zip xs ys)" by simp
  also have "\<dots> = zip xs (take (length xs) ys)" unfolding take_zip by simp
  finally show ?thesis by simp
qed

text \<open>
  Claim C2, as the code has it. For at least two prices the trend strength is
  \<open>max(5 W + b, 0)\<close>: \<open>W\<close> is the sum, taken from the most recent return backwards, of
  the most recent returns (at most 5), each multiplied by one of the first weights of
  the table, as many weights as the window has returns and each used once; \<open>b\<close> is the
  momentum bonus, which needs two returns, that is three prices. Every operation is
  the machine's, whatever its rounding, and a return whose divisor is zero is the
  infinity or \<open>NaN\<close> that the division gives. Which weight meets which return is not
  part of this statement; lemma \<open>calculateTrendStrength_window\<close> above has the pairing
  the code makes.
\<close>

theorem trendStrength_amended:
  assumes "2 \<le> length ps"
  shows "\<exists>ws. mset ws = mset (take (length (recent_returns rnd ps)) [0.15, 0.2, 0.25, 0.35, 0.45])
            \<and> calculateTrendStrength rnd ps
              = jmax (jadd rnd
                        (jmul rnd (jsum rnd (map2 (\<lambda>r w. jmul rnd r (rnd w)) (recent_returns rnd ps) ws))
                                  (Fin 5))
                        (momentum_bonus rnd ps))
                     (Fin 0)"
proof -
  let ?ws = "take (length (recent_returns rnd ps)) weights"
  have "zip (recent_returns rnd ps) ?ws = zip (recent_returns rnd ps) weights"
    by (rule zip_take_right)
  then have "calculateTrendStrength rnd ps
             = jmax (jadd rnd
                       (jmul rnd (jsum rnd (map2 (\<lambda>r w. jmul rnd r (rnd w)) (recent_returns rnd ps) ?ws))
                                 (Fin 5))
                       (momentum_bonus rnd ps))
                    (Fin 0)"
    using calculateTrendStrength_window[OF assms, of rnd] by simp
  moreover have "mset ?ws = mset (take (length (recent_returns rnd ps)) [0.15, 0.2, 0.25, 0.35, 0.45])"
    by (simp add: weights_def)
  ultimately show ?thesis by blast
qed

text \<open>
  The trend strength is not the clamped weighted sum of the specification, even in
  exact arithmetic. With five equal returns the order of the weights does not matter
  and the code returns five times the weighted sum; with a single non-zero return, the
  most recent one, the two differ in the weight as well.
\<close>

theorem trendStrength_spec_counterexample:
  "calculateTrendStrength Fin [1, 2, 4, 8, 16, 32] \<noteq> Fin (trendStrength_spec [1, 2, 4, 8, 16, 32])
   \<and> calculateTrendStrength Fin [1, 2, 4, 8, 16, 32] = Fin 7
   \<and> trendStrength_spec [1, 2, 4, 8, 16, 32] = 1.4
   \<and> calculateTrendStrength Fin [100, 100, 100, 100, 100, 110] = Fin 0.095
   \<and> trendStrength_spec [100, 100, 100, 100, 100, 110] = 0.065"
  by (simp add: calculateTrendStrength_def trendStrength_spec_def
        jsum_def jsub_def weights_def trend_change_def upt_rec)

text \<open>
  The prices 0, 1, 2, 3, 4, 5, 6 in exact arithmetic: the window holds the five most
  recent returns, the division by the first price is not part of it, and the trend
  strength is 473/120.
\<close>

theorem trendStrength_amended_witness:
  "2 \<le> length [0, 1, 2, 3, 4, 5, 6 :: real]
   \<and> (\<exists>ws. mset ws = mset (take (length (recent_returns Fin [0, 1, 2, 3, 4, 5, 6]))
                                  [0.15, 0.2, 0.25, 0.35, 0.45])
         \<and> calculateTrendStrength Fin [0, 1, 2, 3, 4, 5, 6]
           = jmax (jadd Fin
                     (jmul Fin (jsum Fin (map2 (\<lambda>r w. jmul Fin r (Fin w))
                                               (recent_returns Fin [0, 1, 2, 3, 4, 5, 6]) ws))
                               (Fin 5))
                     (momentum_bonus Fin [0, 1, 2, 3, 4, 5, 6]))
                  (Fin 0))
   \<and> calculateTrendStrength Fin [0, 1, 2, 3, 4, 5, 6] = Fin (473 / 120)"
proof -
  have "calculateTrendStrength Fin [0, 1, 2, 3, 4, 5, 6] = Fin (473 / 120)"
    by (simp add: calculateTrendStrength_def jsum_def jsub_def weights_def trend_change_def upt_rec)
  then show ?thesis
    using trendStrength_amended[of "[0, 1, 2, 3, 4, 5, 6]" Fin] by simp
qed

section \<open>The scan\<close>

subsection \<open>Sorting and filtering\<close>

lemma set_dropNulls: "set (dropNulls xs) = {x. Some x \<in> set xs}"
  by (induction xs rule: dropNulls.induct) auto

lemma set_insertOpportunity: "set (insertOpportunity rnd a xs) = insert a (set xs)"
  by (induction xs) auto

lemma set_sortOpportunities: "set (sortOpportunities rnd xs) = set xs"
  by (induction xs) (auto simp: sortOpportunities_def set_insertOpportunity)

text \<open>
  On values that can be ordered the comparator of the sort is positive exactly when its
  first argument is the smaller one: the difference of two distinct doubles keeps its
  sign when it is rounded.
\<close>

lemma difference_sign:
  assumes "double_rounding rnd" "rnd x = Fin x" "rnd y = Fin y"
  shows "jgt (rnd (y - x)) (Fin 0) \<longleftrightarrow> x < y"
proof
  assume "x < y"
  then have "jge (rnd (y - x)) (Fin 0)" "rnd (y - x) \<noteq> Fin 0"
    using rnd_nonneg[OF assms(1), of "y - x"] rnd_difference[OF assms] by simp_all
  then show "jgt (rnd (y - x)) (Fin 0)" by (cases "rnd (y - x)") auto
next
  assume g: "jgt (rnd (y - x)) (Fin 0)"
  show "x < y"
  proof (rule ccontr)
    assume "\<not> x < y"
    then have "jge (Fin 0) (rnd (y - x))" using rnd_nonpos[OF assms(1), of "y - x"] by simp
    then show False using g by (cases "rnd (y - x)") auto
  qed
qed

lemma comparator_orderable:
  assumes "double_rounding rnd" "orderable rnd a" "orderable rnd b"
  shows "jgt (jsub rnd b a) (Fin 0) \<longleftrightarrow> jgt b a"
proof (cases a)
  case a: (Fin x)
  show ?thesis
  proof (cases b)
    case (Fin y)
    have "rnd x = Fin x" "rnd y = Fin y" using assms(2,3) a Fin by (simp_all add: orderable_def)
    then show ?thesis using difference_sign[OF assms(1), of x y] a Fin by (simp add: jsub_def)
  qed (use a assms in \<open>simp_all add: jsub_def orderable_def\<close>)
next
  case PInf
  then show ?thesis using assms by (cases b) (simp_all add: jsub_def orderable_def)
next
  case NInf
  then show ?thesis using assms by (cases b) (simp_all add: jsub_def orderable_def)
next
  case NaN
  then show ?thesis using assms by (simp add: orderable_def)
qed

lemma sorted_insertOpportunity:
  assumes "double_rounding rnd"
    and "\<forall>x\<in>set (a # xs). orderable rnd (potential_gain x)"
    and "sorted_wrt (\<lambda>x y. jge (potential_gain x) (potential_gain y)) xs"
  shows "sorted_wrt (\<lambda>x y. jge (potential_gain x) (potential_gain y)) (insertOpportunity rnd a xs)"
  using assms(2,3)
proof (induction xs)
  case Nil
  then show ?case by simp
next
  case (Cons b xs)
  have oa: "orderable rnd (potential_gain a)" and ob: "orderable rnd (potential_gain b)"
    using Cons.prems(1) by simp_all
  have cmp: "jgt (jsub rnd (potential_gain b) (potential_gain a)) (Fin 0)
             \<longleftrightarrow> jgt (potential_gain b) (potential_gain a)"
    using comparator_orderable[OF assms(1) oa ob] .
  show ?case
  proof (cases "jgt (potential_gain b) (potential_gain a)")
    case True
    then have ba: "jge (potential_gain b) (potential_gain a)" by (simp add: jgt_iff)
    have "sorted_wrt (\<lambda>x y. jge (potential_gain x) (potential_gain y)) (insertOpportunity rnd a xs)"
      using Cons by simp
    then show ?thesis
      using True cmp Cons.prems(2) ba by (auto simp: set_insertOpportunity)
  next
    case False
    have "jge (potential_gain a) (potential_gain b)"
      using False jge_total[OF orderable_not_NaN[OF oa] orderable_not_NaN[OF ob]]
      by (auto simp: jgt_iff)
    moreover have "jge (potential_gain a) (potential_gain y)" if mem: "y \<in> set xs" for y
    proof -
      have "jge (potential_gain b) (potential_gain y)" using Cons.prems(2) mem by simp
      then show ?thesis using calculation jge_trans by blast
    qed
    ultimately show ?thesis using False cmp Cons.prems(2) by auto
  qed
qed

lemma sorted_sortOpportunities:
  assumes "double_rounding rnd"
    and "\<forall>x\<in>set xs. orderable rnd (potential_gain x)"
  shows "sorted_wrt (\<lambda>x y. jge (potential_gain x) (potential_gain y)) (sortOpportunities rnd xs)"
  using assms(2)
proof (induction xs)
  case Nil
  then show ?case by (simp add: sortOpportunities_def)
next
  case (Cons a xs)
  have "sorted_wrt (\<lambda>x y. jge (potential_gain x) (potential_gain y)) (sortOpportunities rnd xs)"
    using Cons by simp
  moreover have "\<forall>x\<in>set (a # sortOpportunities rnd xs). orderable rnd (potential_gain x)"
    using Cons.prems by (simp add: set_sortOpportunities)
  ultimately have "sorted_wrt (\<lambda>x y. jge (potential_gain x) (potential_gain y))
                     (insertOpportunity rnd a (sortOpportunities rnd xs))"
    using sorted_insertOpportunity[OF assms(1)] by blast
  then show ?case by (simp add: sortOpportunities_def)
qed

subsection \<open>One symbol\<close>

lemma analyseSymbol_error_iff:
  "(\<exists>e. analyseSymbol rnd hist m s = Inl e) \<longleftrightarrow> historicalPrices hist s = []"
  by (auto simp: analyseSymbol_def Let_def)

lemma processSymbol_Some_iff:
  "processSymbol rnd hist m s = Some opp \<longleftrightarrow>
     passes_filter rnd hist m s
     \<and> opp = \<lparr> symbol = s,
               current_price = last (historicalPrices hist s),
               target_price = trendPrediction rnd (historicalPrices hist s),
               potential_gain = toFixed rnd (potentialGain rnd (historicalPrices hist s)) 2,
               confidence =
                 toFixed rnd (scanConfidence rnd (historicalPrices hist s) (marketPrices hist s)) 2,
               volatility = toFixed rnd (calculateVolatility rnd (historicalPrices hist s)) 3,
               market_correlation =
                 toFixed rnd (calculateMarketCorrelation rnd (historicalPrices hist s)
                                (marketPrices hist s)) 2 \<rparr>"
  by (auto simp: processSymbol_def analyseSymbol_def passes_filter_def Let_def)

lemma processSymbol_error:
  "analyseSymbol rnd hist m s = Inl e \<Longrightarrow> processSymbol rnd hist m s = None"
  by (simp add: processSymbol_def)

lemma processSymbol_symbol: "processSymbol rnd hist m s = Some opp \<Longrightarrow> symbol opp = s"
  by (simp add: processSymbol_Some_iff)

lemma processSymbol_passes:
  "processSymbol rnd hist m s = Some opp \<Longrightarrow> passes_filter rnd hist m s"
  by (simp add: processSymbol_Some_iff)

lemma passes_processSymbol:
  "passes_filter rnd hist m s \<Longrightarrow> \<exists>opp. processSymbol rnd hist m s = Some opp"
  by (simp add: processSymbol_Some_iff)

lemma scan_eq:
  "scanBlueChipStocks rnd
     \<lparr> symbols = Some syms, historical_data = Some hist, min_gain_potential = mg \<rparr>
   = Opportunities (sortOpportunities rnd
       (dropNulls (map (processSymbol rnd hist (min_gain_or_default mg)) syms)))"
  by (simp add: scanBlueChipStocks_def)

lemma scan_members:
  "opp \<in> set (sortOpportunities rnd (dropNulls (map (processSymbol rnd hist m) syms)))
   \<longleftrightarrow> (\<exists>s\<in>set syms. processSymbol rnd hist m s = Some opp)"
  by (force simp: set_sortOpportunities set_dropNulls)

lemma orderable_potentialGain:
  assumes "double_rounding rnd" "jge (potentialGain rnd ps) (Fin m)"
  shows "orderable rnd (potentialGain rnd ps)"
proof -
  have "potentialGain rnd ps \<noteq> NaN" using assms(2) jge_not_NaN by blast
  then show ?thesis
    unfolding potentialGain_def using orderable_jmul[OF assms(1)] by blast
qed

text \<open>What the scan reports for a symbol that it returns.\<close>

lemma processSymbol_fields:
  assumes "double_rounding rnd" "processSymbol rnd hist m s = Some opp"
  shows "jge (potentialGain rnd (historicalPrices hist s)) (Fin m)
       \<and> jgt (scanConfidence rnd (historicalPrices hist s) (marketPrices hist s)) (Fin 0.5)
       \<and> potential_gain opp = toFixed rnd (potentialGain rnd (historicalPrices hist s)) 2
       \<and> confidence opp
           = toFixed rnd (scanConfidence rnd (historicalPrices hist s) (marketPrices hist s)) 2
       \<and> volatility opp = toFixed rnd (calculateVolatility rnd (historicalPrices hist s)) 3
       \<and> jge (confidence opp) (Fin 0.5)
       \<and> orderable rnd (potential_gain opp)"
proof -
  let ?ps = "historicalPrices hist s"
  let ?ms = "marketPrices hist s"
  have p: "jge (potentialGain rnd ?ps) (Fin m)" "jgt (scanConfidence rnd ?ps ?ms) (Fin 0.5)"
    using assms(2) by (simp_all add: processSymbol_Some_iff passes_filter_def)
  have f: "potential_gain opp = toFixed rnd (potentialGain rnd ?ps) 2"
          "confidence opp = toFixed rnd (scanConfidence rnd ?ps ?ms) 2"
          "volatility opp = toFixed rnd (calculateVolatility rnd ?ps) 3"
    using assms(2) by (simp_all add: processSymbol_Some_iff)
  have h: "jge (confidence opp) (Fin 0.5)"
    unfolding f(2) using toFixed_confidence_ge_half[OF assms(1) p(2)] .
  have o: "orderable rnd (potential_gain opp)"
    unfolding f(1) using orderable_toFixed[OF assms(1) orderable_potentialGain[OF assms(1) p(1)]] .
  show ?thesis using p f h o by (intro conjI) assumption+
qed

section \<open>Results of the scan\<close>

text \<open>
  Claim C1, as the code has it. The scan always answers with a list of opportunities.
  Every opportunity in it comes from a symbol whose computed potential gain is at least
  the minimum and whose computed confidence exceeds 0.5; the filter looks at these
  computed values. The reported fields are the computed values put through
  \<open>toFixed\<close> afterwards, gain and confidence with 2 decimals and volatility with 3:
  for a computed value \<open>x\<close> of magnitude below \<open>10^21\<close> that is the double next to
  \<open>x\<close> rounded to that many decimals. So the reported gain may lie below the minimum,
  and the reported confidence is 0.5 at least but need not exceed it. The list is
  sorted by reported gain, largest first, and a requested symbol is in the list exactly
  when it passes the filter: with the minimum 5, a computed gain of 4.99 keeps a symbol
  out and a computed gain of 5.00 with a computed confidence above 0.5 lets it in.
\<close>

theorem scan_opportunities:
  assumes "double_rounding rnd"
  shows "\<exists>opps. scanBlueChipStocks rnd
             \<lparr> symbols = Some syms, historical_data = Some hist, min_gain_potential = mg \<rparr>
           = Opportunities opps
     \<and> (\<forall>opp\<in>set opps.
           jge (potentialGain rnd (historicalPrices hist (symbol opp)))
               (Fin (min_gain_or_default mg))
         \<and> jgt (scanConfidence rnd (historicalPrices hist (symbol opp))
                  (marketPrices hist (symbol opp))) (Fin 0.5)
         \<and> potential_gain opp
             = toFixed rnd (potentialGain rnd (historicalPrices hist (symbol opp))) 2
         \<and> confidence opp
             = toFixed rnd (scanConfidence rnd (historicalPrices hist (symbol opp))
                              (marketPrices hist (symbol opp))) 2
         \<and> volatility opp
             = toFixed rnd (calculateVolatility rnd (historicalPrices hist (symbol opp))) 3
         \<and> jge (confidence opp) (Fin 0.5))
     \<and> (\<forall>x d. \<bar>x\<bar> < 10 ^ 21 \<longrightarrow> (\<exists>y. rounded_to d x y \<and> toFixed rnd (Fin x) d = rnd y))
     \<and> sorted_wrt (\<lambda>a b. jge (potential_gain a) (potential_gain b)) opps
     \<and> (\<forall>s. s \<in> symbol ` set opps
            \<longleftrightarrow> s \<in> set syms \<and> passes_filter rnd hist (min_gain_or_default mg) s)"
proof -
  define m where "m = min_gain_or_default mg"
  define opps where
    "opps = sortOpportunities rnd (dropNulls (map (processSymbol rnd hist m) syms))"
  have mem: "opp \<in> set opps \<longleftrightarrow> (\<exists>s\<in>set syms. processSymbol rnd hist m s = Some opp)" for opp
    unfolding opps_def by (rule scan_members)
  have fields: "jge (potentialGain rnd (historicalPrices hist (symbol opp))) (Fin m)
         \<and> jgt (scanConfidence rnd (historicalPrices hist (symbol opp))
                  (marketPrices hist (symbol opp))) (Fin 0.5)
         \<and> potential_gain opp
             = toFixed rnd (potentialGain rnd (historicalPrices hist (symbol opp))) 2
         \<and> confidence opp
             = toFixed rnd (scanConfidence rnd (historicalPrices hist (symbol opp))
                              (marketPrices hist (symbol opp))) 2
         \<and> volatility opp
             = toFixed rnd (calculateVolatility rnd (historicalPrices hist (symbol opp))) 3
         \<and> jge (confidence opp) (Fin 0.5)
         \<and> orderable rnd (potential_gain opp)" if oin: "opp \<in> set opps" for opp
  proof -
    obtain s where s: "processSymbol rnd hist m s = Some opp" using oin mem by blast
    then have e: "symbol opp = s" by (rule processSymbol_symbol)
    from processSymbol_fields[OF assms s] show ?thesis unfolding e .
  qed
  have ord: "\<forall>x\<in>set (dropNulls (map (processSymbol rnd hist m) syms)).
               orderable rnd (potential_gain x)"
  proof
    fix x assume "x \<in> set (dropNulls (map (processSymbol rnd hist m) syms))"
    then have "x \<in> set opps" by (simp add: opps_def set_sortOpportunities)
    then show "orderable rnd (potential_gain x)" using fields by blast
  qed
  have sorted: "sorted_wrt (\<lambda>a b. jge (potential_gain a) (potential_gain b)) opps"
    unfolding opps_def using sorted_sortOpportunities[OF assms ord] .
  have incl: "s \<in> symbol ` set opps \<longleftrightarrow> s \<in> set syms \<and> passes_filter rnd hist m s" for s
  proof
    assume "s \<in> symbol ` set opps"
    then obtain opp where o: "opp \<in> set opps" "symbol opp = s" by auto
    then obtain s' where s': "s' \<in> set syms" "processSymbol rnd hist m s' = Some opp"
      using mem by blast
    have "symbol opp = s'" using s'(2) by (rule processSymbol_symbol)
    then have "s' = s" using o(2) by simp
    then show "s \<in> set syms \<and> passes_filter rnd hist m s"
      using s' processSymbol_passes by blast
  next
    assume a: "s \<in> set syms \<and> passes_filter rnd hist m s"
    then obtain opp where p: "processSymbol rnd hist m s = Some opp"
      using passes_processSymbol by blast
    have "opp \<in> set opps" using a p mem by blast
    moreover have "symbol opp = s" using p by (rule processSymbol_symbol)
    ultimately show "s \<in> symbol ` set opps" by (rule rev_image_eqI[of opp, OF _ sym])
  qed
  have eq: "scanBlueChipStocks rnd
          \<lparr> symbols = Some syms, historical_data = Some hist, min_gain_potential = mg \<rparr>
        = Opportunities opps"
    unfolding opps_def m_def by (rule scan_eq)
  have fixed: "\<exists>y. rounded_to d x y \<and> toFixed rnd (Fin x) d = rnd y" if "\<bar>x\<bar> < 10 ^ 21" for x d
    using that by (rule toFixed_rounded)
  show ?thesis
    unfolding m_def[symmetric]
    apply (intro exI[of _ opps] conjI ballI allI impI)
    subgoal by (rule eq)
    subgoal for opp using fields[of opp] by blast
    subgoal for opp using fields[of opp] by blast
    subgoal for opp using fields[of opp] by blast
    subgoal for opp using fields[of opp] by blast
    subgoal for opp using fields[of opp] by blast
    subgoal for opp using fields[of opp] by blast
    subgoal for x d by (rule fixed)
    subgoal by (rule sorted)
    subgoal for s by (rule incl)
    done
qed

subsection \<open>Closed forms for three prices in exact arithmetic\<close>

lemma calculateVolatility_three:
  assumes "a \<noteq> 0" "b \<noteq> 0"
  shows "calculateVolatility Fin [a, b, c] = Fin (\<bar>(c - b) / b - (b - a) / a\<bar> / 2)"
proof -
  define r1 where "r1 = (b - a) / a"
  define r2 where "r2 = (c - b) / b"
  have "((r1 - (r1 + r2) / 2) * (r1 - (r1 + r2) / 2) + (r2 - (r1 + r2) / 2) * (r2 - (r1 + r2) / 2)) / 2
        = ((r2 - r1) / 2)\<^sup>2"
    by (simp add: power2_eq_square field_simps)
  then have s: "sqrt (((r1 - (r1 + r2) / 2) * (r1 - (r1 + r2) / 2)
                      + (r2 - (r1 + r2) / 2) * (r2 - (r1 + r2) / 2)) / 2) = \<bar>r2 - r1\<bar> / 2"
    by (simp only: real_sqrt_abs) simp
  have nn: "\<not> ((r1 - (r1 + r2) / 2) * (r1 - (r1 + r2) / 2)
            + (r2 - (r1 + r2) / 2) * (r2 - (r1 + r2) / 2)) / 2 < 0"
    by (simp add: not_less add_nonneg_nonneg)
  show ?thesis
    using assms s nn
    by (simp add: calculateVolatility_def Let_def jsum_def jsquare_def jsub_def r1_def r2_def)
qed

lemma calculateMarketCorrelation_three:
  assumes "a \<noteq> 0" "b \<noteq> 0" "a' \<noteq> 0" "b' \<noteq> 0"
    and "0 < ((c - b) / b - (b - a) / a) * ((c' - b') / b' - (b' - a') / a')"
  shows "calculateMarketCorrelation Fin [a, b, c] [a', b', c'] = Fin 1"
proof -
  define r1 where "r1 = (b - a) / a"
  define r2 where "r2 = (c - b) / b"
  define m1 where "m1 = (b' - a') / a'"
  define m2 where "m2 = (c' - b') / b'"
  define sm where "sm = (r1 + r2) / 2"
  define mm where "mm = (m1 + m2) / 2"
  define N where "N = (r1 - sm) * (m1 - mm) + (r2 - sm) * (m2 - mm)"
  define S where "S = (r1 - sm) * (r1 - sm) + (r2 - sm) * (r2 - sm)"
  define M where "M = (m1 - mm) * (m1 - mm) + (m2 - mm) * (m2 - mm)"
  have pos: "0 < (r2 - r1) * (m2 - m1)" using assms(5) by (simp add: r1_def r2_def m1_def m2_def)
  have N: "N = (r2 - r1) * (m2 - m1) / 2"
    by (simp add: N_def sm_def mm_def field_simps)
  have "S * M = ((r2 - r1) * (m2 - m1) / 2)\<^sup>2"
    by (simp add: S_def M_def sm_def mm_def power2_eq_square field_simps)
  then have "sqrt (S * M) = \<bar>(r2 - r1) * (m2 - m1) / 2\<bar>"
    by (simp only: real_sqrt_abs)
  then have sq: "sqrt (S * M) = N" using pos N by simp
  have Npos: "0 < N" using pos N by simp
  have nn: "\<not> S * M < 0" using \<open>S * M = _\<close> by simp
  have "calculateMarketCorrelation Fin [a, b, c] [a', b', c'] = jdiv Fin (Fin N) (jsqrt Fin (Fin (S * M)))"
    using assms(1-4)
    by (simp add: calculateMarketCorrelation_def Let_def jsum_def jsub_def
          N_def S_def M_def sm_def mm_def r1_def r2_def m1_def m2_def)
  also have "\<dots> = Fin 1" using sq Npos nn by simp
  finally show ?thesis .
qed

lemma calculateConfidence_exact:
  assumes "calculateTrendStrength Fin ps = Fin t" "calculateConsistency Fin ps = Fin k"
  shows "calculateConfidence Fin (Fin v) (Fin c) ps
         = Fin (max 0 (1 - v * 8) * 0.2 + \<bar>c\<bar> * 0.2 + t * 0.4 + k * 0.2)"
  by (simp add: calculateConfidence_def Let_def assms jsub_def)

subsection \<open>A scan whose reported gain is below the minimum\<close>

lemma ex_vol: "calculateVolatility Fin [25000, 27490, 32988] = Fin 0.0502"
  using calculateVolatility_three[of 25000 27490 32988] by simp

lemma ex_corr: "calculateMarketCorrelation Fin [25000, 27490, 32988] [100, 110, 132] = Fin 1"
  by (rule calculateMarketCorrelation_three) simp_all

lemma ex_trend: "calculateTrendStrength Fin [25000, 27490, 32988] = Fin 0.2696"
  by (simp add: calculateTrendStrength_def jsum_def jsub_def weights_def trend_change_def upt_rec)

lemma ex_cons: "calculateConsistency Fin [25000, 27490, 32988] = Fin 1"
  by (simp add: calculateConsistency_def jsub_def)

lemma ex_conf: "scanConfidence Fin [25000, 27490, 32988] [100, 110, 132] = Fin 0.62752"
  unfolding scanConfidence_def ex_vol ex_corr calculateConfidence_exact[OF ex_trend ex_cons]
  by simp

lemma ex_prediction: "trendPrediction Fin [25000, 27490, 32988] = Fin 34322.03472"
  unfolding trendPrediction_def ex_trend by simp

lemma ex_gain: "potentialGain Fin [25000, 27490, 32988] = Fin 4.044"
  unfolding potentialGain_def ex_prediction by (simp add: jsub_def)

text \<open>
  The reported gain need not reach the minimum: with a minimum of 4.042 a symbol whose
  computed gain is 4.044 passes the filter and is reported with the gain 4.04. The
  values are those of exact arithmetic; the rounding of the doubles moves the computed
  gain by far less than the 0.002 that separate it from the minimum.
\<close>

theorem scan_threshold_counterexample:
  "scanBlueChipStocks Fin
     \<lparr> symbols = Some [''AAPL''],
       historical_data = Some [''AAPL'' \<mapsto> \<lparr> prices = Some [25000, 27490, 32988],
                                              market_prices = Some [100, 110, 132] \<rparr>],
       min_gain_potential = Some 4.042 \<rparr>
   = Opportunities
       [\<lparr> symbol = ''AAPL'', current_price = 32988, target_price = Fin 34322.03472,
          potential_gain = Fin 4.04, confidence = Fin 0.63, volatility = Fin 0.05,
          market_correlation = Fin 1 \<rparr>]
   \<and> \<not> jge (Fin 4.04) (Fin 4.042)"
proof -
  let ?hist = "[''AAPL'' \<mapsto> \<lparr> prices = Some [25000, 27490, 32988],
                                 market_prices = Some [100, 110, 132] \<rparr>]"
  have h: "historicalPrices ?hist ''AAPL'' = [25000, 27490, 32988]"
          "marketPrices ?hist ''AAPL'' = [100, 110, 132]"
    by (simp_all add: historicalPrices_def marketPrices_def)
  have "analyseSymbol Fin ?hist 4.042 ''AAPL''
        = Inr (Some \<lparr> symbol = ''AAPL'', current_price = 32988, target_price = Fin 34322.03472,
                       potential_gain = Fin 4.04, confidence = Fin 0.63, volatility = Fin 0.05,
                       market_correlation = Fin 1 \<rparr>)"
    unfolding analyseSymbol_def Let_def h ex_gain ex_conf ex_vol ex_corr ex_prediction
    by simp
  then show ?thesis
    by (simp add: scanBlueChipStocks_def min_gain_or_default_def processSymbol_def
          sortOpportunities_def)
qed

subsection \<open>A scan with the default minimum\<close>

lemma low_gain: "potentialGain Fin [1000, 1100, 1408] = Fin 4.95"
  by (simp add: potentialGain_def trendPrediction_def calculateTrendStrength_def jsum_def
        weights_def trend_change_def upt_rec jsub_def)

lemma high_gain: "potentialGain Fin [1000, 1100, 1452] = Fin 5.4"
  by (simp add: potentialGain_def trendPrediction_def calculateTrendStrength_def jsum_def
        weights_def trend_change_def upt_rec jsub_def)

lemma high_trend: "calculateTrendStrength Fin [1000, 1100, 1452] = Fin 0.36"
  by (simp add: calculateTrendStrength_def jsum_def jsub_def weights_def trend_change_def upt_rec)

lemma high_cons: "calculateConsistency Fin [1000, 1100, 1452] = Fin 1"
  by (simp add: calculateConsistency_def jsub_def)

lemma high_vol: "calculateVolatility Fin [1000, 1100, 1452] = Fin 0.11"
  using calculateVolatility_three[of 1000 1100 1452] by simp

lemma high_corr: "calculateMarketCorrelation Fin [1000, 1100, 1452] [100, 110, 132] = Fin 1"
  by (rule calculateMarketCorrelation_three) simp_all

lemma high_conf: "scanConfidence Fin [1000, 1100, 1452] [100, 110, 132] = Fin 0.568"
  unfolding scanConfidence_def high_vol high_corr calculateConfidence_exact[OF high_trend high_cons]
  by simp

text \<open>
  Two symbols under the default minimum of 5, in exact arithmetic: the one with a
  computed gain of 4.95 is left out, the one with a computed gain of 5.4 and a
  computed confidence of 0.568 is returned.
\<close>

theorem scan_opportunities_witness:
  "double_rounding Fin
   \<and> (\<exists>opps. scanBlueChipStocks Fin
                \<lparr> symbols = Some [''LOW'', ''HIGH''],
                  historical_data =
                    Some [''LOW'' \<mapsto> \<lparr> prices = Some [1000, 1100, 1408],
                                        market_prices = Some [100, 110, 132] \<rparr>,
                          ''HIGH'' \<mapsto> \<lparr> prices = Some [1000, 1100, 1452],
                                         market_prices = Some [100, 110, 132] \<rparr>],
                  min_gain_potential = None \<rparr>
              = Opportunities opps
            \<and> symbol ` set opps = {''HIGH''}
            \<and> sorted_wrt (\<lambda>a b. jge (potential_gain a) (potential_gain b)) opps)"
proof -
  let ?hist = "[''LOW'' \<mapsto> \<lparr> prices = Some [1000, 1100, 1408],
                                market_prices = Some [100, 110, 132] \<rparr>,
                ''HIGH'' \<mapsto> \<lparr> prices = Some [1000, 1100, 1452],
                                 market_prices = Some [100, 110, 132] \<rparr>]"
  have h: "historicalPrices ?hist ''LOW'' = [1000, 1100, 1408]"
          "historicalPrices ?hist ''HIGH'' = [1000, 1100, 1452]"
          "marketPrices ?hist ''HIGH'' = [100, 110, 132]"
    by (simp_all add: historicalPrices_def marketPrices_def)
  have low: "\<not> passes_filter Fin ?hist 5 ''LOW''"
    unfolding passes_filter_def h low_gain by simp
  have high: "passes_filter Fin ?hist 5 ''HIGH''"
    unfolding passes_filter_def h high_gain high_conf by simp
  obtain opps where o:
    "scanBlueChipStocks Fin \<lparr> symbols = Some [''LOW'', ''HIGH''], historical_data = Some ?hist,
                              min_gain_potential = None \<rparr> = Opportunities opps"
    "sorted_wrt (\<lambda>a b. jge (potential_gain a) (potential_gain b)) opps"
    "\<forall>s. s \<in> symbol ` set opps \<longleftrightarrow>
           s \<in> set [''LOW'', ''HIGH''] \<and> passes_filter Fin ?hist (min_gain_or_default None) s"
    using scan_opportunities[OF double_rounding_Fin, of "[''LOW'', ''HIGH'']" ?hist None] by blast
  have iff: "s \<in> symbol ` set opps \<longleftrightarrow> (s = ''LOW'' \<or> s = ''HIGH'') \<and> passes_filter Fin ?hist 5 s"
    for s
    using o(3) by (simp add: min_gain_or_default_def)
  have "symbol ` set opps = {''HIGH''}"
  proof (rule set_eqI)
    fix s show "s \<in> symbol ` set opps \<longleftrightarrow> s \<in> {''HIGH''}"
      unfolding iff using low high by auto
  qed
  then show ?thesis
    using o(1,2) double_rounding_Fin by (intro conjI exI[of _ opps]) assumption+
qed

section \<open>Bounds of the confidence\<close>

lemma jadd_ge0:
  assumes "double_rounding rnd" "jge a (Fin 0)" "jge b (Fin 0)"
  shows "jge (jadd rnd a b) (Fin 0)"
proof (cases a)
  case a: (Fin x)
  show ?thesis
  proof (cases b)
    case (Fin y)
    then show ?thesis using assms a rnd_nonneg[OF assms(1), of "x + y"] by simp
  qed (use a assms in simp_all)
next
  case PInf
  then show ?thesis using assms by (cases b) simp_all
qed (use assms in simp_all)

text \<open>Adding a number that is not negative to a double does not make it smaller.\<close>

lemma jadd_ge_right:
  assumes "double_rounding rnd" "jge a (Fin 0)" "jge b (Fin 0)" "orderable rnd b"
  shows "jge (jadd rnd a b) b"
proof (cases a)
  case a: (Fin x)
  show ?thesis
  proof (cases b)
    case (Fin y)
    then have "rnd y = Fin y" using assms(4) by (simp add: orderable_def)
    moreover have "jge (rnd (x + y)) (rnd y)" using assms(2) a by (intro rnd_mono[OF assms(1)]) simp
    ultimately show ?thesis using a Fin by simp
  qed (use a assms in simp_all)
next
  case PInf
  then show ?thesis using assms by (cases b) simp_all
qed (use assms in simp_all)

lemma jadd_ge_left:
  assumes "double_rounding rnd" "jge a (Fin 0)" "jge b (Fin 0)" "orderable rnd a"
  shows "jge (jadd rnd a b) a"
proof (cases b)
  case b: (Fin y)
  show ?thesis
  proof (cases a)
    case (Fin x)
    then have "rnd x = Fin x" using assms(4) by (simp add: orderable_def)
    moreover have "jge (rnd (x + y)) (rnd x)" using assms(3) b by (intro rnd_mono[OF assms(1)]) simp
    ultimately show ?thesis using b Fin by simp
  qed (use b assms in simp_all)
next
  case PInf
  then show ?thesis using assms by (cases a) simp_all
qed (use assms in simp_all)

lemma jmul_ge0:
  assumes "double_rounding rnd" "jge a (Fin 0)" "0 < w"
  shows "jge (jmul rnd a (Fin w)) (Fin 0)"
proof (cases a)
  case (Fin x)
  then show ?thesis using assms rnd_nonneg[OF assms(1), of "x * w"] by simp
qed (use assms in simp_all)

lemma jabs_ge0: "c \<noteq> NaN \<Longrightarrow> jge (jabs c) (Fin 0)"
  by (cases c) simp_all

lemma jmax_ge0: "jmax x (Fin 0) \<noteq> NaN \<Longrightarrow> jge (jmax x (Fin 0)) (Fin 0)"
  by (cases x) simp_all

lemma volatilityScore_ge0:
  assumes "double_rounding rnd" "v \<noteq> NaN"
  shows "jge (jmax (Fin 0) (jsub rnd (Fin 1) (jmul rnd v (Fin 8)))) (Fin 0)"
proof -
  have n: "jmul rnd v (Fin 8) \<noteq> NaN"
    using assms rnd_not_NaN[OF assms(1)] by (cases v) simp_all
  have "jsub rnd (Fin 1) (jmul rnd v (Fin 8)) \<noteq> NaN"
    using n rnd_not_NaN[OF assms(1)] by (cases "jmul rnd v (Fin 8)") (simp_all add: jsub_def)
  then show ?thesis
    by (cases "jsub rnd (Fin 1) (jmul rnd v (Fin 8))") simp_all
qed

lemma calculateTrendStrength_ge0:
  "calculateTrendStrength rnd ps \<noteq> NaN \<Longrightarrow> jge (calculateTrendStrength rnd ps) (Fin 0)"
  unfolding calculateTrendStrength_def Let_def
  by (cases "length ps < 2") (simp_all add: jmax_ge0)

lemma calculateConsistency_ge0:
  assumes "double_rounding rnd"
  shows "jge (calculateConsistency rnd ps) (Fin 0)"
proof (cases "length ps < 3")
  case True
  then show ?thesis by (simp add: calculateConsistency_def)
next
  case False
  then have "0 \<le> real (consistentMoves rnd ps) / real (length ps - 2)" by simp
  then show ?thesis
    using False rnd_nonneg[OF assms] by (simp add: calculateConsistency_def)
qed

lemma jadd_mono:
  assumes "double_rounding rnd" "jge a (Fin 0)" "jge b (Fin 0)" "jge a' a" "jge b' b"
  shows "jge (jadd rnd a' b') (jadd rnd a b)"
proof -
  have n: "jadd rnd a b \<noteq> NaN" using jadd_ge0[OF assms(1,2,3)] jge_not_NaN by blast
  show ?thesis
  proof (cases a')
    case a': (Fin x')
    then obtain x where a: "a = Fin x" "0 \<le> x" "x \<le> x'" using assms(2,4) by (cases a) auto
    show ?thesis
    proof (cases b')
      case (Fin y')
      then obtain y where b: "b = Fin y" "0 \<le> y" "y \<le> y'" using assms(3,5) by (cases b) auto
      have "jge (rnd (x' + y')) (rnd (x + y))" using a b by (intro rnd_mono[OF assms(1)]) simp
      then show ?thesis using a a' b Fin by simp
    next
      case PInf
      then show ?thesis using a' n by (cases "jadd rnd a b") simp_all
    qed (use assms in \<open>cases b, simp_all\<close>)+
  next
    case PInf
    have "b' \<noteq> NaN" "b' \<noteq> NInf" using assms(3,5) by (cases b; cases b'; simp)+
    then have "jadd rnd a' b' = PInf" using PInf by (cases b') simp_all
    then show ?thesis using n by (cases "jadd rnd a b") simp_all
  qed (use assms in \<open>cases a, simp_all\<close>)+
qed

lemma jmul_le_literal:
  assumes "double_rounding rnd" "0 \<le> x" "x \<le> 1" "rnd l = Fin w" "0 < w"
  shows "jge (rnd l) (jmul rnd (Fin x) (rnd l))"
proof -
  have "rnd w = Fin w" using rnd_idem[OF assms(1,4)] .
  moreover have "jge (rnd w) (rnd (x * w))"
    using assms(2,3,5) by (intro rnd_mono[OF assms(1)]) (simp add: mult_left_le_one_le)
  ultimately show ?thesis using assms(4) by simp
qed

lemma volatilityScore_le1:
  assumes "double_rounding rnd" "jge v (Fin 0)"
  shows "\<exists>s. jmax (Fin 0) (jsub rnd (Fin 1) (jmul rnd v (Fin 8))) = Fin s \<and> 0 \<le> s \<and> s \<le> 1"
proof -
  have z: "jge (jmul rnd v (Fin 8)) (Fin 0)" using jmul_ge0[OF assms, of 8] by simp
  show ?thesis
  proof (cases "jmul rnd v (Fin 8)")
    case (Fin z)
    then have "0 \<le> z" using z by simp
    then have u: "jge (Fin 1) (rnd (1 - z))" using rnd_le_1[OF assms(1), of "1 - z"] by simp
    have "jsub rnd (Fin 1) (jmul rnd v (Fin 8)) = rnd (1 - z)" using Fin by (simp add: jsub_def)
    then show ?thesis using u by (cases "rnd (1 - z)") auto
  next
    case PInf
    then show ?thesis by (simp add: jsub_def)
  qed (use z in simp_all)
qed

lemma consistentMoves_le: "consistentMoves rnd ps \<le> length ps - 2"
  by (induction rnd ps rule: consistentMoves.induct) (auto simp: Let_def)

lemma calculateConsistency_unit:
  assumes "double_rounding rnd"
  shows "\<exists>k. calculateConsistency rnd ps = Fin k \<and> 0 \<le> k \<and> k \<le> 1"
proof (cases "length ps < 3")
  case True
  then show ?thesis by (simp add: calculateConsistency_def)
next
  case False
  then have p: "0 < real (length ps - 2)" by simp
  have "real (consistentMoves rnd ps) \<le> real (length ps - 2)"
    using consistentMoves_le[of rnd ps] by (simp only: of_nat_le_iff)
  then have le: "real (consistentMoves rnd ps) / real (length ps - 2) \<le> 1"
    using p by (simp add: divide_le_eq)
  have ge: "0 \<le> real (consistentMoves rnd ps) / real (length ps - 2)" by simp
  have "jge (rnd (real (consistentMoves rnd ps) / real (length ps - 2))) (Fin 0)"
       "jge (Fin 1) (rnd (real (consistentMoves rnd ps) / real (length ps - 2)))"
    using rnd_nonneg[OF assms ge] rnd_le_1[OF assms le] by simp_all
  then show ?thesis
    using False p
    by (cases "rnd (real (consistentMoves rnd ps) / real (length ps - 2))")
       (auto simp: calculateConsistency_def)
qed

text \<open>
  Claim C3, as the code has it. For a volatility and a correlation that are numbers and
  prices whose trend strength is a number (none of them \<open>NaN\<close>), the confidence is a
  number, it is not negative, and it is at least the product of the trend strength
  with 0.4 that the code adds into it. The trend strength has no upper bound, so the
  confidence has none either: it can exceed 1, and it is an infinity when the trend
  strength overflows. When the volatility is not negative and the correlation lies
  within \<open>[-1, 1]\<close>, the other three terms are at most 0.2 each, and the confidence is
  at most the sum \<open>0.2 + 0.2 + 0.4 t + 0.2\<close> as the machine adds it up. In exact
  arithmetic the confidence is the value of the formula
  \<open>0.2 max(0, 1 - 8 v) + 0.2 |c| + 0.4 t + 0.2 k\<close> for the trend strength \<open>t\<close> and the
  consistency \<open>k\<close> of the prices.
\<close>

theorem confidence_bounds:
  assumes "double_rounding rnd" "v \<noteq> NaN" "c \<noteq> NaN" "calculateTrendStrength rnd ps \<noteq> NaN"
  shows "calculateConfidence rnd v c ps \<noteq> NaN
         \<and> jge (calculateConfidence rnd v c ps) (Fin 0)
         \<and> jge (calculateConfidence rnd v c ps)
               (jmul rnd (calculateTrendStrength rnd ps) (rnd 0.4))
         \<and> (jge v (Fin 0) \<and> jge (Fin 1) (jabs c) \<longrightarrow>
              jge (jadd rnd
                     (jadd rnd (jadd rnd (rnd 0.2) (rnd 0.2))
                               (jmul rnd (calculateTrendStrength rnd ps) (rnd 0.4)))
                     (rnd 0.2))
                  (calculateConfidence rnd v c ps))
         \<and> (\<forall>x y t k. calculateTrendStrength Fin ps = Fin t \<and> calculateConsistency Fin ps = Fin k
                \<longrightarrow> calculateConfidence Fin (Fin x) (Fin y) ps
                    = Fin (0.2 * max 0 (1 - 8 * x) + 0.2 * \<bar>y\<bar> + 0.4 * t + 0.2 * k))"
proof -
  obtain w2 where w2: "rnd 0.2 = Fin w2" "0 < w2"
    using rnd_literal[OF assms(1), of "0.2"] by auto
  obtain w4 where w4: "rnd 0.4 = Fin w4" "0 < w4"
    using rnd_literal[OF assms(1), of "0.4"] by auto
  define A where "A = jmul rnd (jmax (Fin 0) (jsub rnd (Fin 1) (jmul rnd v (Fin 8)))) (rnd 0.2)"
  define B where "B = jmul rnd (jabs c) (rnd 0.2)"
  define C where "C = jmul rnd (calculateTrendStrength rnd ps) (rnd 0.4)"
  define D where "D = jmul rnd (calculateConsistency rnd ps) (rnd 0.2)"
  have A: "jge A (Fin 0)"
    unfolding A_def w2(1) using jmul_ge0[OF assms(1) volatilityScore_ge0[OF assms(1,2)] w2(2)] .
  have B: "jge B (Fin 0)"
    unfolding B_def w2(1) using jmul_ge0[OF assms(1) jabs_ge0[OF assms(3)] w2(2)] .
  have C: "jge C (Fin 0)"
    unfolding C_def w4(1)
    using jmul_ge0[OF assms(1) calculateTrendStrength_ge0[OF assms(4)] w4(2)] .
  have D: "jge D (Fin 0)"
    unfolding D_def w2(1) using jmul_ge0[OF assms(1) calculateConsistency_ge0[OF assms(1)] w2(2)] .
  have oC: "orderable rnd C"
    unfolding C_def using orderable_jmul[OF assms(1)] C jge_not_NaN unfolding C_def by blast
  have AB: "jge (jadd rnd A B) (Fin 0)" using jadd_ge0[OF assms(1) A B] .
  have ABC: "jge (jadd rnd (jadd rnd A B) C) (Fin 0)" using jadd_ge0[OF assms(1) AB C] .
  have ABC_C: "jge (jadd rnd (jadd rnd A B) C) C" using jadd_ge_right[OF assms(1) AB C oC] .
  have oABC: "orderable rnd (jadd rnd (jadd rnd A B) C)"
    using orderable_jadd[OF assms(1)] ABC jge_not_NaN by blast
  have all: "jge (jadd rnd (jadd rnd (jadd rnd A B) C) D) (Fin 0)"
    using jadd_ge0[OF assms(1) ABC D] .
  have "jge (jadd rnd (jadd rnd (jadd rnd A B) C) D) (jadd rnd (jadd rnd A B) C)"
    using jadd_ge_left[OF assms(1) ABC D oABC] .
  then have geC: "jge (jadd rnd (jadd rnd (jadd rnd A B) C) D) C"
    using ABC_C jge_trans by blast
  have eq: "calculateConfidence rnd v c ps = jadd rnd (jadd rnd (jadd rnd A B) C) D"
    by (simp add: calculateConfidence_def Let_def A_def B_def C_def D_def)
  have nn: "calculateConfidence rnd v c ps \<noteq> NaN" unfolding eq using all jge_not_NaN by blast
  have upper: "jge (jadd rnd (jadd rnd (jadd rnd (rnd 0.2) (rnd 0.2)) C) (rnd 0.2))
                   (jadd rnd (jadd rnd (jadd rnd A B) C) D)"
    if valid: "jge v (Fin 0) \<and> jge (Fin 1) (jabs c)"
  proof -
    obtain s where s: "jmax (Fin 0) (jsub rnd (Fin 1) (jmul rnd v (Fin 8))) = Fin s"
        "0 \<le> s" "s \<le> 1"
      using volatilityScore_le1[OF assms(1)] valid by blast
    obtain a where a: "jabs c = Fin a" "0 \<le> a" "a \<le> 1"
      using valid by (cases c) auto
    obtain k where k: "calculateConsistency rnd ps = Fin k" "0 \<le> k" "k \<le> 1"
      using calculateConsistency_unit[OF assms(1)] by blast
    have Ale: "jge (rnd 0.2) A"
      unfolding A_def s(1) using jmul_le_literal[OF assms(1) s(2,3) w2] .
    have Ble: "jge (rnd 0.2) B"
      unfolding B_def a(1) using jmul_le_literal[OF assms(1) a(2,3) w2] .
    have Dle: "jge (rnd 0.2) D"
      unfolding D_def k(1) using jmul_le_literal[OF assms(1) k(2,3) w2] .
    have CC: "jge C C" using C jge_not_NaN jge_refl by blast
    have 1: "jge (jadd rnd (rnd 0.2) (rnd 0.2)) (jadd rnd A B)"
      using jadd_mono[OF assms(1) A B Ale Ble] .
    have 2: "jge (jadd rnd (jadd rnd (rnd 0.2) (rnd 0.2)) C) (jadd rnd (jadd rnd A B) C)"
      using jadd_mono[OF assms(1) AB C 1 CC] .
    show ?thesis using jadd_mono[OF assms(1) ABC D 2 Dle] .
  qed
  have exact: "calculateConfidence Fin (Fin x) (Fin y) ps
                 = Fin (0.2 * max 0 (1 - 8 * x) + 0.2 * \<bar>y\<bar> + 0.4 * t + 0.2 * k)"
    if "calculateTrendStrength Fin ps = Fin t \<and> calculateConsistency Fin ps = Fin k" for x y t k
    using that calculateConfidence_exact[of ps t k x y] by (simp add: mult.commute)
  show ?thesis
    unfolding eq C_def[symmetric]
    using nn[unfolded eq] all geC upper exact by (intro conjI impI allI) blast+
qed

text \<open>
  Prices that double and then rise by half again, scored in exact arithmetic with their
  own volatility and their correlation with a rising market, have a confidence of
  1.258.
\<close>

theorem confidence_counterexample:
  "calculateVolatility Fin [100, 200, 500] = Fin 0.25
   \<and> calculateMarketCorrelation Fin [100, 200, 500] [100, 110, 132] = Fin 1
   \<and> calculateConfidence Fin (Fin 0.25) (Fin 1) [100, 200, 500] = Fin 1.258
   \<and> \<not> jge (Fin 1) (Fin 1.258)"
proof -
  have v: "calculateVolatility Fin [100, 200, 500] = Fin 0.25"
    using calculateVolatility_three[of 100 200 500] by simp
  have c: "calculateMarketCorrelation Fin [100, 200, 500] [100, 110, 132] = Fin 1"
    by (rule calculateMarketCorrelation_three) simp_all
  have t: "calculateTrendStrength Fin [100, 200, 500] = Fin 2.145"
    by (simp add: calculateTrendStrength_def jsum_def jsub_def weights_def trend_change_def upt_rec)
  have k: "calculateConsistency Fin [100, 200, 500] = Fin 1"
    by (simp add: calculateConsistency_def jsub_def)
  have "calculateConfidence Fin (Fin 0.25) (Fin 1) [100, 200, 500] = Fin 1.258"
    unfolding calculateConfidence_exact[OF t k] by simp
  then show ?thesis using v c by simp
qed

text \<open>The bounds at the same input, in exact arithmetic.\<close>

theorem confidence_bounds_witness:
  "double_rounding Fin \<and> Fin 0.25 \<noteq> NaN \<and> Fin 1 \<noteq> NaN
   \<and> calculateTrendStrength Fin [100, 200, 500] = Fin 2.145
   \<and> calculateConsistency Fin [100, 200, 500] = Fin 1
   \<and> jge (Fin 0.25) (Fin 0) \<and> jge (Fin 1) (jabs (Fin 1))
   \<and> calculateConfidence Fin (Fin 0.25) (Fin 1) [100, 200, 500] \<noteq> NaN
   \<and> jge (calculateConfidence Fin (Fin 0.25) (Fin 1) [100, 200, 500]) (Fin 0)
   \<and> jge (calculateConfidence Fin (Fin 0.25) (Fin 1) [100, 200, 500]) (Fin 0.858)
   \<and> jge (Fin 1.458) (calculateConfidence Fin (Fin 0.25) (Fin 1) [100, 200, 500])
   \<and> calculateConfidence Fin (Fin 0.25) (Fin 1) [100, 200, 500] = Fin 1.258"
proof -
  have t: "calculateTrendStrength Fin [100, 200, 500] = Fin 2.145"
    by (simp add: calculateTrendStrength_def jsum_def jsub_def weights_def trend_change_def upt_rec)
  then have n: "calculateTrendStrength Fin [100, 200, 500] \<noteq> NaN" by simp
  have k: "calculateConsistency Fin [100, 200, 500] = Fin 1"
    by (simp add: calculateConsistency_def jsub_def)
  note b = confidence_bounds[OF double_rounding_Fin, of "Fin 0.25" "Fin 1" "[100, 200, 500]", OF _ _ n]
  have "calculateConfidence Fin (Fin 0.25) (Fin 1) [100, 200, 500]
        = Fin (0.2 * max 0 (1 - 8 * 0.25) + 0.2 * \<bar>1\<bar> + 0.4 * 2.145 + 0.2 * 1)"
    using b t k by blast
  then have e: "calculateConfidence Fin (Fin 0.25) (Fin 1) [100, 200, 500] = Fin 1.258" by simp
  show ?thesis
    using b double_rounding_Fin k e unfolding t by simp
qed


section \<open>A symbol that throws\<close>

lemma dropNulls_removeAll:
  "f s = None \<Longrightarrow> dropNulls (map f (removeAll s xs)) = dropNulls (map f xs)"
proof (induction xs)
  case (Cons a xs)
  then show ?case by (cases "f a") auto
qed simp

text \<open>
  Claim C5. When the body run for a symbol throws, the scan still answers, the symbol
  is not among the opportunities, and the answer is the one the scan gives without that
  symbol: the other symbols of the batch are scored as if it had not been there.
\<close>

theorem scan_isolates_failure:
  assumes "analyseSymbol rnd hist (min_gain_or_default mg) s = Inl e"
  shows "\<exists>opps. scanBlueChipStocks rnd
                  \<lparr> symbols = Some syms, historical_data = Some hist, min_gain_potential = mg \<rparr>
                = Opportunities opps
              \<and> s \<notin> symbol ` set opps
              \<and> scanBlueChipStocks rnd
                  \<lparr> symbols = Some (removeAll s syms), historical_data = Some hist,
                    min_gain_potential = mg \<rparr>
                = Opportunities opps"
proof -
  define m where "m = min_gain_or_default mg"
  have none: "processSymbol rnd hist m s = None"
    using assms unfolding m_def by (rule processSymbol_error)
  define opps where "opps = sortOpportunities rnd (dropNulls (map (processSymbol rnd hist m) syms))"
  have "s \<notin> symbol ` set opps"
  proof
    assume "s \<in> symbol ` set opps"
    then obtain opp where o: "opp \<in> set opps" "symbol opp = s" by auto
    then obtain s' where s': "processSymbol rnd hist m s' = Some opp"
      unfolding opps_def scan_members by blast
    then have "symbol opp = s'" by (rule processSymbol_symbol)
    then show False using o(2) s' none by simp
  qed
  moreover have "scanBlueChipStocks rnd
                  \<lparr> symbols = Some syms, historical_data = Some hist, min_gain_potential = mg \<rparr>
                 = Opportunities opps"
    unfolding opps_def m_def by (rule scan_eq)
  moreover have "scanBlueChipStocks rnd
                  \<lparr> symbols = Some (removeAll s syms), historical_data = Some hist,
                    min_gain_potential = mg \<rparr>
                 = Opportunities opps"
    unfolding scan_eq opps_def m_def[symmetric]
      dropNulls_removeAll[of "processSymbol rnd hist m" s, OF none] ..
  ultimately show ?thesis by blast
qed

text \<open>A symbol without historical data next to one that is returned.\<close>

theorem scan_isolates_failure_witness:
  "analyseSymbol Fin [''AAPL'' \<mapsto> \<lparr> prices = Some [25000, 27490, 32988],
                                  market_prices = Some [100, 110, 132] \<rparr>]
                 (min_gain_or_default (Some 4)) ''GONE'' = Inl TypeError
   \<and> (\<exists>opps. scanBlueChipStocks Fin
                \<lparr> symbols = Some [''GONE'', ''AAPL''],
                  historical_data = Some [''AAPL'' \<mapsto> \<lparr> prices = Some [25000, 27490, 32988],
                                                         market_prices = Some [100, 110, 132] \<rparr>],
                  min_gain_potential = Some 4 \<rparr>
              = Opportunities opps
            \<and> ''GONE'' \<notin> symbol ` set opps
            \<and> scanBlueChipStocks Fin
                \<lparr> symbols = Some [''AAPL''],
                  historical_data = Some [''AAPL'' \<mapsto> \<lparr> prices = Some [25000, 27490, 32988],
                                                         market_prices = Some [100, 110, 132] \<rparr>],
                  min_gain_potential = Some 4 \<rparr>
              = Opportunities opps)"
proof -
  let ?hist = "[''AAPL'' \<mapsto> \<lparr> prices = Some [25000, 27490, 32988],
                                 market_prices = Some [100, 110, 132] \<rparr>]"
  have e: "analyseSymbol Fin ?hist (min_gain_or_default (Some 4)) ''GONE'' = Inl TypeError"
    by (simp add: analyseSymbol_def historicalPrices_def)
  show ?thesis
    using e scan_isolates_failure[OF e, of "[''GONE'', ''AAPL'']"] by simp
qed

section \<open>Draining the subscription queue\<close>

lemma connectToSymbol_queue:
  "connectToSymbol t s m = Inr m' \<Longrightarrow> subscriptionQueue m' = subscriptionQueue m"
  by (auto simp: connectToSymbol_def split: if_splits)

lemma connectToSymbol_fails_iff:
  "(\<exists>e. connectToSymbol t s m = Inl e) \<longleftrightarrow> connections m s = None \<and> t"
  by (auto simp: connectToSymbol_def)

lemma connectToSymbol_connections:
  "connectToSymbol t s m = Inr m' \<Longrightarrow>
     connections m' s \<noteq> None \<and> (\<forall>x. connections m x \<noteq> None \<longrightarrow> connections m' x \<noteq> None)
     \<and> (\<forall>x. x \<noteq> s \<longrightarrow> connections m' x = connections m x)
     \<and> (connections m s = None \<longrightarrow> \<not> t)"
  by (auto simp: connectToSymbol_def split: if_splits)

lemma connect_batch_queue:
  "subscriptionQueue (fst (connect_batch throws batch m)) = subscriptionQueue m"
proof (induction batch arbitrary: m)
  case (Cons s rest)
  show ?case
  proof (cases "connectToSymbol (throws s) s m")
    case (Inl e)
    then show ?thesis using Cons by simp
  next
    case (Inr m')
    then show ?thesis using Cons connectToSymbol_queue[OF Inr] by simp
  qed
qed simp

lemma connect_batch_keeps:
  "connections m x \<noteq> None \<Longrightarrow> connections (fst (connect_batch throws batch m)) x \<noteq> None"
proof (induction batch arbitrary: m)
  case (Cons s rest)
  show ?case
  proof (cases "connectToSymbol (throws s) s m")
    case (Inl e)
    then show ?thesis using Cons by simp
  next
    case (Inr m')
    then have "connections m' x \<noteq> None"
      using connectToSymbol_connections[OF Inr] Cons.prems by blast
    then show ?thesis using Cons.IH Inr by simp
  qed
qed simp

lemma connect_batch_connects:
  "x \<in> set batch \<Longrightarrow> \<not> throws x
   \<Longrightarrow> connections (fst (connect_batch throws batch m)) x \<noteq> None"
proof (induction batch arbitrary: m)
  case (Cons s rest)
  show ?case
  proof (cases "connectToSymbol (throws s) s m")
    case (Inl e)
    then have "x \<noteq> s" using Cons.prems(2) connectToSymbol_fails_iff by blast
    then show ?thesis using Cons Inl by simp
  next
    case (Inr m')
    show ?thesis
    proof (cases "x = s")
      case True
      then have "connections m' x \<noteq> None" using connectToSymbol_connections[OF Inr] by blast
      then show ?thesis using connect_batch_keeps Inr by simp
    next
      case False
      then show ?thesis using Cons Inr by simp
    qed
  qed
qed simp

lemma connect_batch_fails_iff:
  "\<not> snd (connect_batch throws batch m)
   \<longleftrightarrow> (\<exists>s\<in>set batch. connections m s = None \<and> throws s)"
proof (induction batch arbitrary: m)
  case (Cons s rest)
  show ?case
  proof (cases "connectToSymbol (throws s) s m")
    case (Inl e)
    then have "connections m s = None \<and> throws s" using connectToSymbol_fails_iff by blast
    then show ?thesis using Inl by auto
  next
    case (Inr m')
    note c = connectToSymbol_connections[OF Inr]
    have "(connections m' x = None \<and> throws x) \<longleftrightarrow> (connections m x = None \<and> throws x)" for x
      using c by (cases "x = s") auto
    moreover have "\<not> (connections m s = None \<and> throws s)" using c by blast
    ultimately show ?thesis using Cons.IH[of m'] Inr by auto
  qed
qed simp

lemma drain_step_cases:
  "drain_step throws m =
     (let batch = slice0 (cfg_subscriptionBatchSize (config m)) (subscriptionQueue m);
          r = connect_batch throws batch m
      in if snd r
         then (fst r)\<lparr> subscriptionQueue := filter (\<lambda>s. s \<notin> set batch) (subscriptionQueue (fst r)) \<rparr>
         else fst r)"
  by (simp add: drain_step_def Let_def split: prod.splits bool.splits)

lemma drain_step_successful_batch:
  assumes "\<forall>s\<in>set (slice0 (cfg_subscriptionBatchSize (config m)) (subscriptionQueue m)).
             \<not> (connections m s = None \<and> throws s)"
  shows "subscriptionQueue (drain_step throws m)
         = filter (\<lambda>x. x \<notin> set (slice0 (cfg_subscriptionBatchSize (config m)) (subscriptionQueue m)))
                  (subscriptionQueue m)"
proof -
  let ?batch = "slice0 (cfg_subscriptionBatchSize (config m)) (subscriptionQueue m)"
  have "snd (connect_batch throws ?batch m)"
    using assms connect_batch_fails_iff by blast
  then have "drain_step throws m
             = (fst (connect_batch throws ?batch m))
                 \<lparr> subscriptionQueue := filter (\<lambda>x. x \<notin> set ?batch)
                      (subscriptionQueue (fst (connect_batch throws ?batch m))) \<rparr>"
    by (simp add: drain_step_cases Let_def)
  then show ?thesis by (simp add: connect_batch_queue)
qed


text \<open>
  Claim C7. When the connect of some symbol of the batch fails (the symbol has no
  connection yet and the constructor throws), the drain step leaves the pending set as
  it was: every symbol of the batch is still pending, the ones whose connect succeeded
  included, although they are connected now. Otherwise, and only then, the step takes
  the symbols of the batch out of the pending set.
\<close>

theorem drain_step_batch:
  "subscriptionQueue (drain_step throws m)
   = (if \<exists>s\<in>set (slice0 (cfg_subscriptionBatchSize (config m)) (subscriptionQueue m)).
           connections m s = None \<and> throws s
      then subscriptionQueue m
      else filter (\<lambda>x. x \<notin> set (slice0 (cfg_subscriptionBatchSize (config m)) (subscriptionQueue m)))
                  (subscriptionQueue m))
   \<and> (\<forall>x\<in>set (slice0 (cfg_subscriptionBatchSize (config m)) (subscriptionQueue m)).
         \<not> throws x \<longrightarrow> connections (drain_step throws m) x \<noteq> None)"
proof -
  let ?batch = "slice0 (cfg_subscriptionBatchSize (config m)) (subscriptionQueue m)"
  have c: "connections (drain_step throws m) = connections (fst (connect_batch throws ?batch m))"
    by (simp add: drain_step_cases Let_def)
  have conn: "\<forall>x\<in>set ?batch. \<not> throws x \<longrightarrow> connections (drain_step throws m) x \<noteq> None"
    unfolding c using connect_batch_connects by blast
  show ?thesis
  proof (cases "\<exists>s\<in>set ?batch. connections m s = None \<and> throws s")
    case True
    then have "\<not> snd (connect_batch throws ?batch m)"
      using connect_batch_fails_iff by blast
    then have "drain_step throws m = fst (connect_batch throws ?batch m)"
      by (simp add: drain_step_cases Let_def)
    then have q: "subscriptionQueue (drain_step throws m) = subscriptionQueue m"
      by (simp add: connect_batch_queue)
    show ?thesis by (rule conjI[OF _ conn]) (simp only: q if_P[OF True])
  next
    case False
    then have q: "subscriptionQueue (drain_step throws m)
               = filter (\<lambda>x. x \<notin> set ?batch) (subscriptionQueue m)"
      using drain_step_successful_batch[of m throws] by blast
    show ?thesis by (rule conjI[OF _ conn]) (simp only: q if_not_P[OF False])
  qed
qed

text \<open>Three pending symbols, a batch size of 2, and a constructor that throws for B.\<close>

theorem drain_step_batch_witness:
  "''B'' \<in> set (slice0 (cfg_subscriptionBatchSize
                           (config ((new_manager (make_config None None (Some 2) None))
                                      \<lparr> subscriptionQueue := [''A'', ''B'', ''C''] \<rparr>)))
                        (subscriptionQueue ((new_manager (make_config None None (Some 2) None))
                                              \<lparr> subscriptionQueue := [''A'', ''B'', ''C''] \<rparr>)))
   \<and> connections ((new_manager (make_config None None (Some 2) None))
                     \<lparr> subscriptionQueue := [''A'', ''B'', ''C''] \<rparr>) ''B'' = None
   \<and> subscriptionQueue (drain_step (\<lambda>x. x = ''B'')
                           ((new_manager (make_config None None (Some 2) None))
                              \<lparr> subscriptionQueue := [''A'', ''B'', ''C''] \<rparr>))
     = [''A'', ''B'', ''C'']
   \<and> connections (drain_step (\<lambda>x. x = ''B'')
                     ((new_manager (make_config None None (Some 2) None))
                        \<lparr> subscriptionQueue := [''A'', ''B'', ''C''] \<rparr>)) ''A'' \<noteq> None"
proof -
  let ?m = "(new_manager (make_config None None (Some 2) None))
              \<lparr> subscriptionQueue := [''A'', ''B'', ''C''] \<rparr>"
  have b: "slice0 (cfg_subscriptionBatchSize (config ?m)) (subscriptionQueue ?m) = [''A'', ''B'']"
    by (simp add: slice0_def new_manager_def make_config_def or_default_def)
  have h: "''B'' \<in> set (slice0 (cfg_subscriptionBatchSize (config ?m)) (subscriptionQueue ?m))"
          "connections ?m ''B'' = None"
    unfolding b by (simp_all add: new_manager_def)
  note r = drain_step_batch[of "\<lambda>x. x = ''B''" ?m]
  have "\<exists>s\<in>set (slice0 (cfg_subscriptionBatchSize (config ?m)) (subscriptionQueue ?m)).
          connections ?m s = None \<and> s = ''B''"
    using h by blast
  then have q: "subscriptionQueue (drain_step (\<lambda>x. x = ''B'') ?m) = subscriptionQueue ?m"
    using r by simp
  have "''A'' \<in> set (slice0 (cfg_subscriptionBatchSize (config ?m)) (subscriptionQueue ?m))"
    unfolding b by simp
  then have "connections (drain_step (\<lambda>x. x = ''B'') ?m) ''A'' \<noteq> None"
    using r by auto
  then show ?thesis using h q by simp
qed
section \<open>Connecting and the attempt counter\<close>

lemma handleDisconnection_start_budget:
  "snd (handleDisconnection_start s m) \<longleftrightarrow> 0 < reconnect_budget m s"
  by (auto simp: handleDisconnection_start_def reconnect_budget_def Let_def split: option.splits)

lemma handleDisconnection_start_spends:
  "0 < reconnect_budget m s
   \<Longrightarrow> reconnect_budget (fst (handleDisconnection_start s m)) s = reconnect_budget m s - 1"
  by (auto simp: handleDisconnection_start_def reconnect_budget_def Let_def split: option.splits)

text \<open>
  A connect that opens a new connection (the symbol has none and the constructor does
  not throw) registers the connection and sets the symbol's counter to 0; a connect for
  a symbol that has a connection registered changes nothing.
\<close>

lemma connectToSymbol_new_connection:
  "(connections m s = None \<longrightarrow>
      (\<exists>m'. connectToSymbol False s m = Inr m'
           \<and> connections m' s \<noteq> None
           \<and> reconnectAttempts m' s = Some 0
           \<and> reconnect_budget m' s = cfg_reconnectAttempts (config m')))
   \<and> (connections m s \<noteq> None \<longrightarrow> connectToSymbol throws s m = Inr m)"
  by (simp add: connectToSymbol_def reconnect_budget_def)

text \<open>
  Claim C10. A connect that succeeds should set the symbol's counter to 0, so that a
  symbol that reconnects has its full budget of reconnects again. The connect that
  follows a close does not. A subscribed symbol with a fresh connection has the full
  budget of 5 of the default configuration. When its socket closes, the handler counts
  the attempt and, after its wait, calls \<open>connectToSymbol\<close>. The closed socket is still
  registered under the symbol, so the call returns at once, without an error and
  without touching the counter: the handler ends with the counter at 1 and a budget of
  4, and a further connect for the symbol leaves it there.
\<close>

theorem reconnect_keeps_attempts:
  "reconnect_budget
      ((new_manager (make_config None None None None))
         \<lparr> connections := [''AAPL'' \<mapsto> 0], reconnectAttempts := [''AAPL'' \<mapsto> 0],
           sockets := 1 \<rparr>) ''AAPL'' = 5
   \<and> (\<exists>m'. handleDisconnection False ''AAPL''
               ((new_manager (make_config None None None None))
                  \<lparr> connections := [''AAPL'' \<mapsto> 0], reconnectAttempts := [''AAPL'' \<mapsto> 0],
                    sockets := 1 \<rparr>) = Inr m'
            \<and> reconnectAttempts m' ''AAPL'' = Some 1
            \<and> reconnect_budget m' ''AAPL'' = 4
            \<and> connectToSymbol False ''AAPL'' m' = Inr m')"
  by (simp add: connectToSymbol_def new_manager_def handleDisconnection_def
        handleDisconnection_start_def handleDisconnection_resume_def
        reconnect_budget_def make_config_def or_default_def)


section \<open>Closing a connection\<close>

text \<open>
  For a symbol that has a registered connection and attempts left, the handler only
  counts the attempt.
\<close>

lemma handleDisconnection_connected:
  assumes "connections m s \<noteq> None"
    and "(case reconnectAttempts m s of None \<Rightarrow> 0 | Some a \<Rightarrow> a) < cfg_reconnectAttempts (config m)"
  shows "handleDisconnection throws s m
         = Inr (m\<lparr> reconnectAttempts :=
                     (reconnectAttempts m)(s \<mapsto> (case reconnectAttempts m s of None \<Rightarrow> 0 | Some a \<Rightarrow> a) + 1) \<rparr>)"
  using assms
  by (simp add: handleDisconnection_def handleDisconnection_start_def
        handleDisconnection_resume_def connectToSymbol_def Let_def)

text \<open>
  Claim C8. A close should lead to a reconnect, and a symbol that uses up its attempts
  should be unsubscribed. When the socket of a subscribed symbol closes, the handler
  counts the attempt and, after the wait, calls \<open>connectToSymbol\<close>; the closed socket
  is still registered under the symbol, so the call returns at once. No WebSocket is
  created: the count of sockets stays at 1 and the symbol keeps its closed socket. As
  no new socket exists no further close event can arrive, the counter stays at 1 and
  the symbol is never unsubscribed.
\<close>

theorem handleDisconnection_keeps_closed_socket:
  "connectToSymbol False ''AAPL'' (new_manager (make_config None None None None))
   = Inr ((new_manager (make_config None None None None))
            \<lparr> connections := [''AAPL'' \<mapsto> 0], reconnectAttempts := [''AAPL'' \<mapsto> 0],
              sockets := 1 \<rparr>)
   \<and> handleDisconnection False ''AAPL''
        ((new_manager (make_config None None None None))
           \<lparr> connections := [''AAPL'' \<mapsto> 0], reconnectAttempts := [''AAPL'' \<mapsto> 0],
             sockets := 1 \<rparr>)
     = Inr ((new_manager (make_config None None None None))
              \<lparr> connections := [''AAPL'' \<mapsto> 0], reconnectAttempts := [''AAPL'' \<mapsto> 1],
                sockets := 1 \<rparr>)"
  by (simp add: connectToSymbol_def new_manager_def handleDisconnection_def
        handleDisconnection_start_def handleDisconnection_resume_def make_config_def
        or_default_def)

section \<open>Batched delivery of updates\<close>

lemma map_of_map_set: "map_of (map_set k v xs) = (map_of xs)(k \<mapsto> v)"
  by (induction k v xs rule: map_set.induct) (auto simp: fun_eq_iff)

lemma keys_map_set: "fst ` set (map_set k v xs) = insert k (fst ` set xs)"
  by (induction k v xs rule: map_set.induct) auto

lemma distinct_map_set: "distinct (map fst xs) \<Longrightarrow> distinct (map fst (map_set k v xs))"
  by (induction k v xs rule: map_set.induct) (auto simp: keys_map_set)

lemma set_map_set:
  "set (map_set k v xs) \<subseteq> insert (k, v) (set xs)"
  by (induction k v xs rule: map_set.induct) auto

lemma run_hook_append:
  "run_hook opts (evs @ evs') st = run_hook opts evs' (run_hook opts evs st)"
  by (induction opts evs st rule: run_hook.induct) auto

lemma update_messages_append:
  "update_messages s (evs @ evs') = update_messages s evs @ update_messages s evs'"
  by (induction s evs rule: update_messages.induct) auto

lemma updates_flush [simp]: "updates (flush opts st) = updates st"
  by (simp add: flush_def)

lemma updates_processMessage:
  "updates (processMessage opts msg st)
   = (if msg_type msg = Error then updates st
      else map_set (msg_symbol msg) (make_update msg) (updates st))"
  by (simp add: processMessage_def Let_def)

text \<open>The map of the hook after a run from the initial state.\<close>

lemma run_hook_updates:
  "distinct (map fst (updates (run_hook opts evs initial_hook)))
   \<and> (\<forall>(k, u)\<in>set (updates (run_hook opts evs initial_hook)). upd_symbol u = k)
   \<and> map_of (updates (run_hook opts evs initial_hook)) = latest_update evs"
proof (induction evs rule: rev_induct)
  case Nil
  then show ?case by (simp add: initial_hook_def latest_update_def fun_eq_iff)
next
  case (snoc e evs)
  let ?st = "run_hook opts evs initial_hook"
  have IH: "distinct (map fst (updates ?st))"
    "\<forall>(k, u)\<in>set (updates ?st). upd_symbol u = k"
    "map_of (updates ?st) = latest_update evs"
    using snoc by simp_all
  show ?case
  proof (cases e)
    case Tick
    have "run_hook opts (evs @ [e]) initial_hook = flush opts ?st"
      using Tick by (simp add: run_hook_append)
    moreover have "latest_update (evs @ [e]) = latest_update evs"
      using Tick by (simp add: latest_update_def update_messages_append fun_eq_iff)
    ultimately show ?thesis using IH by simp
  next
    case (Message msg)
    have r: "run_hook opts (evs @ [e]) initial_hook = processMessage opts msg ?st"
      using Message by (simp add: run_hook_append)
    show ?thesis
    proof (cases "msg_type msg = Error")
      case True
      have "updates (processMessage opts msg ?st) = updates ?st"
        using True by (simp add: updates_processMessage)
      moreover have "latest_update (evs @ [e]) = latest_update evs"
        using Message True by (simp add: latest_update_def update_messages_append fun_eq_iff)
      ultimately show ?thesis using IH r by simp
    next
      case False
      let ?k = "msg_symbol msg" and ?u = "make_update msg"
      have u: "updates (run_hook opts (evs @ [e]) initial_hook) = map_set ?k ?u (updates ?st)"
        using r False by (simp add: updates_processMessage)
      have d: "distinct (map fst (map_set ?k ?u (updates ?st)))"
        by (rule distinct_map_set[OF IH(1)])
      have k: "\<forall>(k, u)\<in>set (map_set ?k ?u (updates ?st)). upd_symbol u = k"
      proof (clarify)
        fix k' u' assume "(k', u') \<in> set (map_set ?k ?u (updates ?st))"
        then have "(k', u') = (?k, ?u) \<or> (k', u') \<in> set (updates ?st)"
          using set_map_set[of ?k ?u "updates ?st"] by blast
        then show "upd_symbol u' = k'"
        proof
          assume "(k', u') = (?k, ?u)"
          then show ?thesis by (simp add: make_update_def)
        next
          assume "(k', u') \<in> set (updates ?st)"
          then show ?thesis using IH(2) by blast
        qed
      qed
      have m: "update_messages s (evs @ [e])
               = update_messages s evs @ (if ?k = s then [msg] else [])" for s
        using Message False by (simp add: update_messages_append)
      have l: "latest_update (evs @ [e]) s = ((latest_update evs)(?k \<mapsto> ?u)) s" for s
        unfolding latest_update_def m by simp
      have "map_of (map_set ?k ?u (updates ?st)) = latest_update (evs @ [e])"
        unfolding map_of_map_set IH(3) using l by (simp add: fun_eq_iff)
      then show ?thesis unfolding u using d k by simp
    qed
  qed
qed

lemma flush_batch_values:
  "batchUpdates opts \<Longrightarrow> has_onUpdate opts \<Longrightarrow> flush_batch opts st = map snd (updates st)"
  by (simp add: flush_batch_def)

text \<open>
  Claim C9, as the code has it. In batched mode with a callback, a flush hands to the
  callback one update for each symbol that has received an update since the hook
  started, and for each of them the latest update received. The map of updates is
  never emptied, so this holds whether or not the update arrived since the previous
  flush: a flush that follows a flush hands over the same batch again.
\<close>

theorem flush_delivers_every_symbol:
  assumes "batchUpdates opts" "has_onUpdate opts"
  shows "distinct (map upd_symbol (flush_batch opts (run_hook opts evs initial_hook)))
         \<and> set (flush_batch opts (run_hook opts evs initial_hook))
           = {u. \<exists>s. latest_update evs s = Some u}
         \<and> flush_batch opts (run_hook opts (evs @ [Tick]) initial_hook)
           = flush_batch opts (run_hook opts evs initial_hook)"
proof -
  let ?st = "run_hook opts evs initial_hook"
  note inv = run_hook_updates[of opts evs]
  have f: "flush_batch opts ?st = map snd (updates ?st)"
    using assms by (rule flush_batch_values)
  have "\<forall>x\<in>set (updates ?st). upd_symbol (snd x) = fst x"
    using inv by (auto simp: split_beta)
  then have e: "map upd_symbol (map snd (updates ?st)) = map fst (updates ?st)"
    by (simp add: map_eq_conv)
  have d: "distinct (map upd_symbol (flush_batch opts ?st))"
    unfolding f e using inv by blast
  have "set (map snd (updates ?st)) = ran (map_of (updates ?st))"
    using inv ran_distinct[of "updates ?st"] by simp
  then have s: "set (flush_batch opts ?st) = {u. \<exists>s. latest_update evs s = Some u}"
    using inv f by (simp add: ran_def)
  have "updates (run_hook opts (evs @ [Tick]) initial_hook) = updates ?st"
    by (simp add: run_hook_append)
  then have t: "flush_batch opts (run_hook opts (evs @ [Tick]) initial_hook) = flush_batch opts ?st"
    by (simp add: flush_batch_def)
  show ?thesis using d s t by simp
qed

text \<open>
  One update and two flushes: the second flush calls the callback for a symbol that
  has received nothing since the first.
\<close>

theorem flush_repeats_counterexample:
  "delivered (run_hook \<lparr> has_onUpdate = True, batchUpdates = True \<rparr>
       [Message \<lparr> msg_type = Trade, msg_symbol = ''AAPL'',
                  msg_data = \<lparr> data_p = Some 150, data_price = None, data_c = None,
                               data_change = None, data_changePercent = None,
                               data_v = Some 10, data_volume = None \<rparr>,
                  msg_timestamp = 1 \<rparr>,
        Tick, Tick]
       initial_hook)
   = [\<lparr> upd_symbol = ''AAPL'', upd_price = Some 150, upd_change = 0, upd_changePercent = 0,
        upd_volume = 10, upd_timestamp = 1 \<rparr>,
      \<lparr> upd_symbol = ''AAPL'', upd_price = Some 150, upd_change = 0, upd_changePercent = 0,
        upd_volume = 10, upd_timestamp = 1 \<rparr>]"
  by (simp add: processMessage_def flush_def flush_batch_def make_update_def initial_hook_def
        js_or_def or_zero_def)

text \<open>
  Two updates for AAPL with a flush between them and one for MSFT before it: the next
  flush delivers the later AAPL update and the MSFT update, once each.
\<close>

theorem flush_delivers_every_symbol_witness:
  "batchUpdates \<lparr> has_onUpdate = True, batchUpdates = True \<rparr>
   \<and> has_onUpdate \<lparr> has_onUpdate = True, batchUpdates = True \<rparr>
   \<and> flush_batch \<lparr> has_onUpdate = True, batchUpdates = True \<rparr>
        (run_hook \<lparr> has_onUpdate = True, batchUpdates = True \<rparr>
           [Message \<lparr> msg_type = Trade, msg_symbol = ''AAPL'',
                      msg_data = \<lparr> data_p = Some 150, data_price = None, data_c = None,
                                   data_change = None, data_changePercent = None,
                                   data_v = None, data_volume = None \<rparr>,
                      msg_timestamp = 1 \<rparr>,
            Message \<lparr> msg_type = Quote, msg_symbol = ''MSFT'',
                      msg_data = \<lparr> data_p = None, data_price = None, data_c = Some 300,
                                   data_change = None, data_changePercent = None,
                                   data_v = None, data_volume = None \<rparr>,
                      msg_timestamp = 2 \<rparr>,
            Tick,
            Message \<lparr> msg_type = Trade, msg_symbol = ''AAPL'',
                      msg_data = \<lparr> data_p = Some 151, data_price = None, data_c = None,
                                   data_change = None, data_changePercent = None,
                                   data_v = None, data_volume = None \<rparr>,
                      msg_timestamp = 3 \<rparr>]
           initial_hook)
     = [\<lparr> upd_symbol = ''AAPL'', upd_price = Some 151, upd_change = 0, upd_changePercent = 0,
          upd_volume = 0, upd_timestamp = 3 \<rparr>,
        \<lparr> upd_symbol = ''MSFT'', upd_price = Some 300, upd_change = 0, upd_changePercent = 0,
          upd_volume = 0, upd_timestamp = 2 \<rparr>]
   \<and> distinct (map upd_symbol
       (flush_batch \<lparr> has_onUpdate = True, batchUpdates = True \<rparr>
        (run_hook \<lparr> has_onUpdate = True, batchUpdates = True \<rparr>
           [Message \<lparr> msg_type = Trade, msg_symbol = ''AAPL'',
                      msg_data = \<lparr> data_p = Some 150, data_price = None, data_c = None,
                                   data_change = None, data_changePercent = None,
                                   data_v = None, data_volume = None \<rparr>,
                      msg_timestamp = 1 \<rparr>,
            Message \<lparr> msg_type = Quote, msg_symbol = ''MSFT'',
                      msg_data = \<lparr> data_p = None, data_price = None, data_c = Some 300,
                                   data_change = None, data_changePercent = None,
                                   data_v = None, data_volume = None \<rparr>,
                      msg_timestamp = 2 \<rparr>,
            Tick,
            Message \<lparr> msg_type = Trade, msg_symbol = ''AAPL'',
                      msg_data = \<lparr> data_p = Some 151, data_price = None, data_c = None,
                                   data_change = None, data_changePercent = None,
                                   data_v = None, data_volume = None \<rparr>,
                      msg_timestamp = 3 \<rparr>]
           initial_hook)))"
proof -
  let ?opts = "\<lparr> has_onUpdate = True, batchUpdates = True \<rparr>"
  have h: "batchUpdates ?opts" "has_onUpdate ?opts" by simp_all
  show ?thesis
    using flush_delivers_every_symbol[OF h]
    by (simp add: processMessage_def flush_def flush_batch_def make_update_def initial_hook_def
          js_or_def or_zero_def)
qed

section \<open>Retrying after a rate limit\<close>

declare decimal.simps [simp del]

lemma polygon_request_rate_limited:
  "polygon_request rnd cfg (Response 429 ra # rest) random n
   = (Send cfg # Sleep (waitTime rnd ra) # Sleep (jmul rnd (Fin (random n)) (Fin 1000))
        # fst (polygon_request rnd cfg rest random (Suc n)),
      snd (polygon_request rnd cfg rest random (Suc n)))"
  by (simp add: Let_def split: prod.splits)


subsection \<open>Reading the header\<close>






text \<open>Every natural number is spelled by its decimal digits.\<close>

lemma decimal_chars: "list_all (\<lambda>c. 48 \<le> c \<and> c \<le> 57) (decimal n)"
proof (induction n rule: decimal.induct)
  case (1 n)
  show ?case
  proof (cases "n < 10")
    case True
    then show ?thesis by (subst decimal.simps) simp
  next
    case False
    have "n mod 10 < 10" by simp
    then have "48 + n mod 10 \<le> 57" by linarith
    then show ?thesis using False 1 by (subst decimal.simps) auto
  qed
qed

lemma decimal_not_empty: "decimal n \<noteq> []"
  by (subst decimal.simps) simp

lemma is_digits_decimal: "is_digits (decimal n)"
  by (simp add: is_digits_def decimal_chars decimal_not_empty)

lemma digits_value_decimal: "digits_value (decimal n) = n"
proof (induction n rule: decimal.induct)
  case (1 n)
  show ?case
  proof (cases "n < 10")
    case True
    then show ?thesis by (subst decimal.simps) (simp add: digits_value_def)
  next
    case False
    then have "digits_value (decimal (n div 10)) = n div 10" using 1 by simp
    then have "digits_value (decimal (n div 10) @ [48 + n mod 10]) = n div 10 * 10 + n mod 10"
      by (simp add: digits_value_def)
    then show ?thesis using False by (subst decimal.simps) simp
  qed
qed


text \<open>
  Headers that are not a string of digits, read in exact arithmetic: a text without a
  leading number gives \<open>NaN\<close>, a fraction gives its integer part, and white space in
  front of the number, here a no-break space, is skipped.
\<close>

lemma waitTime_other_headers:
  "waitTime Fin (Some (code_units ''abc'')) = NaN
   \<and> waitTime Fin (Some (code_units ''1.5'')) = Fin 1000
   \<and> waitTime Fin (Some (0xA0 # code_units ''5'')) = Fin 5000"
  by (simp add: waitTime_def parseInt_def code_units_def is_space_def digit_value_def Let_def)




text \<open>Every further 429 is answered with a further transmission.\<close>

lemma rate_limit_retries_unbounded:
  "attempt_count (fst (polygon_request rnd cfg
                         (replicate k (Response 429 ra) @ [Response 200 None]) random n))
   = Suc k"
proof (induction k arbitrary: n)
  case 0
  then show ?case by (simp add: attempt_count_def)
next
  case (Suc k)
  have "replicate (Suc k) (Response 429 ra) @ [Response 200 None]
        = Response 429 ra # (replicate k (Response 429 ra) @ [Response 200 None])"
    by simp
  then show ?case
    unfolding polygon_request_rate_limited
    using Suc.IH[of "Suc n"] by (simp add: attempt_count_def polygon_request_rate_limited
          del: polygon_request.simps replicate.simps)
qed


end
